theory Spec2Isabelle
  imports Main
begin

section \<open>Strings, character classes and the regular expressions of the preprocessor\<close>

text \<open>
  A JavaScript string is modelled as a \<^typ>\<open>string\<close>: one \<^typ>\<open>char\<close> per code unit, for the
  code units below 256.
\<close>

definition is_word_char :: "char \<Rightarrow> bool" where
  \<comment> \<open>the class \<open>\w\<close>: \<open>[A-Za-z0-9_]\<close>\<close>
  "is_word_char c =
     (let n = (of_char c :: nat)
      in (48 \<le> n \<and> n \<le> 57) \<or> (65 \<le> n \<and> n \<le> 90) \<or> n = 95 \<or> (97 \<le> n \<and> n \<le> 122))"

definition is_space :: "char \<Rightarrow> bool" where
  \<comment> \<open>the class \<open>\s\<close> (and what \<open>trim\<close> strips): tab, LF, VT, FF, CR, space, NBSP\<close>
  "is_space c = (c \<in> set [CHR 0x09, CHR 0x0A, CHR 0x0B, CHR 0x0C, CHR 0x0D, CHR 0x20, CHR 0xA0])"

definition trim :: "string \<Rightarrow> string" where
  "trim s = rev (dropWhile is_space (rev (dropWhile is_space s)))"

text \<open>
  A matcher stands for one regular expression: given the text before the current position
  and the text from it on, it returns the length of the match starting at this position.
\<close>

type_synonym matcher = "string \<Rightarrow> string \<Rightarrow> nat option"

definition word_boundary :: "string \<Rightarrow> string \<Rightarrow> bool" where
  \<comment> \<open>the assertion \<open>\b\<close> between \<open>pre\<close> and \<open>rest\<close>\<close>
  "word_boundary pre rest =
     ((pre \<noteq> [] \<and> is_word_char (last pre)) \<noteq> (rest \<noteq> [] \<and> is_word_char (hd rest)))"

text \<open>
  The preprocessor puts a name into the source of a regular expression as it is:
  \<open>new RegExp(`\\b${macroName}\\b`, 'g')\<close>. So the characters of the name are read as a
  pattern: a letter, a digit or an underscore stands for itself, and a full stop for any
  character but a line terminator. Names with other characters are not covered, see
  \<open>modelled_macro\<close> below.
\<close>

definition pattern_character :: "char \<Rightarrow> char \<Rightarrow> bool" where
  \<comment> \<open>the character \<open>c\<close> of the text matches the character \<open>p\<close> of the pattern\<close>
  "pattern_character p c =
     (if p = CHR ''.'' then c \<noteq> CHR 0x0A \<and> c \<noteq> CHR 0x0D else c = p)"

definition word_matcher :: "string \<Rightarrow> matcher" where
  \<comment> \<open>\<open>\bNAME\b\<close>\<close>
  "word_matcher name pre rest =
     (if word_boundary pre rest \<and> list_all2 pattern_character name (take (length name) rest)
         \<and> word_boundary (pre @ take (length name) rest) (drop (length name) rest)
      then Some (length name) else None)"

definition start_matcher :: "string \<Rightarrow> matcher" where
  \<comment> \<open>\<open>\bNAME\s*\(\<close>, for a name that is an identifier\<close>
  "start_matcher name pre rest =
     (if word_boundary pre rest \<and> take (length name) rest = name
      then (let ws = takeWhile is_space (drop (length name) rest)
            in (case drop (length name + length ws) rest of
                  [] \<Rightarrow> None
                | c # _ \<Rightarrow> if c = CHR ''('' then Some (length name + length ws + 1) else None))
      else None)"

definition paste_matcher :: matcher where
  \<comment> \<open>\<open>\s+##\s+\<close>\<close>
  "paste_matcher pre rest =
     (let ws1 = takeWhile is_space rest;
          r1 = dropWhile is_space rest;
          ws2 = takeWhile is_space (drop 2 r1)
      in if ws1 \<noteq> [] \<and> take 2 r1 = ''##'' \<and> ws2 \<noteq> []
         then Some (length ws1 + 2 + length ws2) else None)"

definition alternatives_matcher :: "string list \<Rightarrow> matcher" where
  \<comment> \<open>\<open>(\ba1\b|\ba2\b|...)\<close>; with no alternative the group \<open>()\<close> matches the empty string\<close>
  "alternatives_matcher names pre rest =
     (if names = [] then Some 0
      else (case List.map_filter (\<lambda>a. word_matcher a pre rest) names of
              [] \<Rightarrow> None
            | l # _ \<Rightarrow> Some l))"

fun regex_exec :: "matcher \<Rightarrow> string \<Rightarrow> string \<Rightarrow> (nat \<times> nat) option" where
  \<comment> \<open>\<open>regex.exec\<close> without the global flag: index and length of the leftmost match\<close>
  "regex_exec m pre [] =
     (case m pre [] of None \<Rightarrow> None | Some l \<Rightarrow> Some (length pre, l))"
| "regex_exec m pre (c # cs) =
     (case m pre (c # cs) of
        None \<Rightarrow> regex_exec m (pre @ [c]) cs
      | Some l \<Rightarrow> Some (length pre, l))"

definition regex_test :: "matcher \<Rightarrow> string \<Rightarrow> bool" where
  "regex_test m text = (regex_exec m [] text \<noteq> None)"

fun regex_replace_all ::
  "matcher \<Rightarrow> (string \<Rightarrow> string \<Rightarrow> string \<Rightarrow> string) \<Rightarrow> string \<Rightarrow> string \<Rightarrow> string" where
  \<comment> \<open>\<open>str.replace(regex, ...)\<close> with the global flag; \<open>subst matched pre post\<close> is what
      replaces one match\<close>
  "regex_replace_all m subst pre [] =
     (case m pre [] of None \<Rightarrow> [] | Some l \<Rightarrow> subst [] pre [])"
| "regex_replace_all m subst pre (c # cs) =
     (case m pre (c # cs) of
        None \<Rightarrow> c # regex_replace_all m subst (pre @ [c]) cs
      | Some 0 \<Rightarrow> subst [] pre (c # cs) @ c # regex_replace_all m subst (pre @ [c]) cs
      | Some (Suc k) \<Rightarrow>
          subst (c # take k cs) pre (drop k cs)
            @ regex_replace_all m subst (pre @ c # take k cs) (drop k cs))"

fun get_substitution :: "string \<Rightarrow> string \<Rightarrow> string \<Rightarrow> string \<Rightarrow> string" where
  \<comment> \<open>GetSubstitution of a replacement string when the pattern has no capture group:
      \<open>$$\<close>, \<open>$&\<close>, \<open>$`\<close> and \<open>$'\<close> are special, any other character stands for itself\<close>
  "get_substitution matched pre post (c # d # rest) =
     (if c = CHR ''$'' \<and> d = CHR ''$'' then CHR ''$'' # get_substitution matched pre post rest
      else if c = CHR ''$'' \<and> d = CHR ''&'' then matched @ get_substitution matched pre post rest
      else if c = CHR ''$'' \<and> d = CHR 0x60 then pre @ get_substitution matched pre post rest
      else if c = CHR ''$'' \<and> d = CHR 0x27 then post @ get_substitution matched pre post rest
      else c # get_substitution matched pre post (d # rest))"
| "get_substitution matched pre post template = template"

fun index_of :: "string \<Rightarrow> string \<Rightarrow> nat option" where
  \<comment> \<open>\<open>str.indexOf(pattern)\<close>\<close>
  "index_of pattern [] = (if pattern = [] then Some 0 else None)"
| "index_of pattern (c # cs) =
     (if take (length pattern) (c # cs) = pattern then Some 0
      else map_option Suc (index_of pattern cs))"

definition replace_string :: "string \<Rightarrow> string \<Rightarrow> string \<Rightarrow> string" where
  \<comment> \<open>\<open>str.replace(pattern, replacement)\<close> with a string pattern: the first occurrence only\<close>
  "replace_string str pattern replacement =
     (case index_of pattern str of
        None \<Rightarrow> str
      | Some p \<Rightarrow>
          take p str
            @ get_substitution pattern (take p str) (drop (p + length pattern) str) replacement
            @ drop (p + length pattern) str)"

definition tokenPaste :: "string \<Rightarrow> string" where
  "tokenPaste str = regex_replace_all paste_matcher (\<lambda>matched pre post. []) [] str"

section \<open>The argument scanner\<close>

fun scan_loop ::
  "string \<Rightarrow> nat \<Rightarrow> int \<Rightarrow> string list \<Rightarrow> string \<Rightarrow> (string list \<times> nat) option" where
  "scan_loop [] i parens args arg = None"
| "scan_loop (char # src) i parens args arg =
     (let parens = (if char = CHR ''('' then parens + 1 else parens);
          parens = (if char = CHR '')'' then parens - 1 else parens)
      in if parens = - 1
         then Some (if arg \<noteq> [] \<or> args \<noteq> [] then args @ [arg] else args, i)
         else if char = CHR '','' \<and> parens = 0
              then scan_loop src (i + 1) parens (args @ [arg]) []
              else scan_loop src (i + 1) parens args (arg @ [char]))"

definition scanFunctionArgs :: "string \<Rightarrow> (string list \<times> nat) option" where
  "scanFunctionArgs src = scan_loop src 0 0 [] []"

section \<open>Macros and their expansion\<close>

datatype param = Identifier_node string | Literal_node string

fun literal_of :: "param \<Rightarrow> string option" where
  "literal_of (Literal_node l) = Some l"
| "literal_of (Identifier_node a) = None"

fun identifier_of :: "param \<Rightarrow> string" where
  \<comment> \<open>a literal node has no \<open>identifier\<close>: the template string renders it as \<open>undefined\<close>\<close>
  "identifier_of (Identifier_node a) = a"
| "identifier_of (Literal_node l) = ''undefined''"

record Macro =
  macro_args :: "param list option"
  macro_body :: "string option"

type_synonym Macros = "(string \<times> Macro) list"

text \<open>
  The macros object is an association list in insertion order, one entry per name.
\<close>

definition without :: "Macros \<Rightarrow> string \<Rightarrow> Macros" where
  "without obj key = filter (\<lambda>(k, v). k \<noteq> key) obj"

datatype error = Error string | TypeError

text \<open>
  A computation returns a value or throws. The two other results belong to the model:
  \<open>OutOfFuel\<close> when the bound on the computation was not enough, and \<open>Unmodelled\<close> when the
  input is one that the model does not cover, so that it says nothing of what the program
  does there.
\<close>

datatype 'a result = OutOfFuel | Unmodelled | Throw error | Return 'a

definition too_many :: "string \<Rightarrow> string" where
  "too_many macroName = [CHR 0x27] @ macroName @ [CHR 0x27] @ '': Too many arguments for macro''"

definition not_enough :: "string \<Rightarrow> string" where
  "not_enough macroName = [CHR 0x27] @ macroName @ [CHR 0x27] @ '': Not enough arguments for macro''"

definition unterminated :: "string \<Rightarrow> string" where
  "unterminated matched = matched @ '' unterminated macro invocation''"

definition formal_params :: "Macro \<Rightarrow> param list" where
  \<comment> \<open>\<open>macroArgs\<close>: the parameter nodes that are not comma literals\<close>
  "formal_params macro =
     filter (\<lambda>arg. literal_of arg \<noteq> Some '','')
       (case macro_args macro of None \<Rightarrow> [] | Some as \<Rightarrow> as)"

definition substitute_params :: "string list \<Rightarrow> string list \<Rightarrow> string \<Rightarrow> string" where
  \<comment> \<open>the one-pass replacement of the parameters in the macro body\<close>
  "substitute_params argIdentifiers values body =
     (let argKeys = foldl (\<lambda>acc (k, v). acc(k \<mapsto> v)) Map.empty (zip argIdentifiers values)
      in regex_replace_all (alternatives_matcher argIdentifiers)
           (\<lambda>matched pre post. case argKeys matched of Some v \<Rightarrow> v | None \<Rightarrow> matched)
           [] body)"

text \<open>
  The fuel bounds the depth of the calls of \<open>expandMacros\<close> and the iterations of the loop of
  \<open>expandFunctionMacro\<close>; \<^term>\<open>OutOfFuel\<close> means that the bound was not enough. The functions
  that \<open>expandMacros\<close> calls take the recursive \<open>expandMacros\<close> as their first argument
  \<open>expand\<close>.
\<close>

definition expandObjectMacro ::
  "(string \<Rightarrow> Macros \<Rightarrow> string result) \<Rightarrow> Macros \<Rightarrow> string \<Rightarrow> Macro \<Rightarrow> string \<Rightarrow> string result" where
  "expandObjectMacro expand macros macroName macro text =
     (if regex_test (word_matcher macroName) text
      then (case expand (case macro_body macro of None \<Rightarrow> [] | Some b \<Rightarrow> b)
                   (without macros macroName) of
              OutOfFuel \<Rightarrow> OutOfFuel
            | Unmodelled \<Rightarrow> Unmodelled
            | Throw e \<Rightarrow> Throw e
            | Return scanned \<Rightarrow>
                Return (tokenPaste
                  (regex_replace_all (word_matcher macroName)
                     (\<lambda>matched pre post. get_substitution matched pre post scanned)
                     [] text)))
      else Return text)"

fun expand_args ::
  "(string \<Rightarrow> Macros \<Rightarrow> string result) \<Rightarrow> Macros \<Rightarrow> string list \<Rightarrow> string list result" where
  \<comment> \<open>the expansions of the trimmed arguments, in order\<close>
  "expand_args expand macros [] = Return []"
| "expand_args expand macros (arg # args) =
     (case expand (trim arg) macros of
        OutOfFuel \<Rightarrow> OutOfFuel
      | Unmodelled \<Rightarrow> Unmodelled
      | Throw e \<Rightarrow> Throw e
      | Return v \<Rightarrow>
         (case expand_args expand macros args of
            OutOfFuel \<Rightarrow> OutOfFuel
          | Unmodelled \<Rightarrow> Unmodelled
          | Throw e \<Rightarrow> Throw e
          | Return vs \<Rightarrow> Return (v # vs)))"

definition replace_call ::
  "(string \<Rightarrow> Macros \<Rightarrow> string result) \<Rightarrow> Macros \<Rightarrow> string \<Rightarrow> Macro \<Rightarrow> string list \<Rightarrow> string result" where
  \<comment> \<open>\<open>expandedReplace\<close>: the body with the parameters replaced, pasted and scanned again\<close>
  "replace_call expand macros macroName macro args =
     (let macroArgs = formal_params macro
      in (case expand_args expand macros args of
            OutOfFuel \<Rightarrow> OutOfFuel
          | Unmodelled \<Rightarrow> Unmodelled
          | Throw e \<Rightarrow> Throw e
          | Return values \<Rightarrow>
             (case macro_body macro of
                None \<Rightarrow> Throw TypeError
              | Some body \<Rightarrow>
                 expand (tokenPaste (substitute_params (map identifier_of macroArgs) values body))
                   (without macros macroName))))"

definition expand_call ::
  "(string \<Rightarrow> Macros \<Rightarrow> string result) \<Rightarrow> Macros \<Rightarrow> string \<Rightarrow> Macro \<Rightarrow> string \<Rightarrow> nat \<Rightarrow> nat
     \<Rightarrow> (string \<times> string) result" where
  \<comment> \<open>one iteration of the loop of \<open>expandFunctionMacro\<close>, for the match of length \<open>len\<close> at
      \<open>index\<close> of \<open>current\<close>: what is added to \<open>expanded\<close>, and the new \<open>current\<close>\<close>
  "expand_call expand macros macroName macro current index len =
     (case scanFunctionArgs (drop (index + len) current) of
        None \<Rightarrow> Throw (Error (unterminated (take len (drop index current))))
      | Some (args, argLength) \<Rightarrow>
         (let macroArgs = formal_params macro;
              matchLength = len + argLength + 1
          in if length args > length macroArgs then Throw (Error (too_many macroName))
             else if length args < length macroArgs then Throw (Error (not_enough macroName))
             else
              (case replace_call expand macros macroName macro args of
                 OutOfFuel \<Rightarrow> OutOfFuel
               | Unmodelled \<Rightarrow> Unmodelled
               | Throw e \<Rightarrow> Throw e
               | Return expandedReplace \<Rightarrow>
                  (let endOfReplace = index + length expandedReplace;
                       processed = replace_string current
                          (take matchLength (drop index current)) expandedReplace
                   in Return (take endOfReplace processed, drop endOfReplace processed)))))"

fun expand_loop ::
  "nat \<Rightarrow> (string \<Rightarrow> nat \<Rightarrow> nat \<Rightarrow> (string \<times> string) result) \<Rightarrow> string \<Rightarrow> string \<Rightarrow> string
     \<Rightarrow> string result" where
  \<comment> \<open>the loop \<open>while ((startMatch = startRegex.exec(current)))\<close>\<close>
  "expand_loop n call macroName expanded current =
     (case regex_exec (start_matcher macroName) [] current of
        None \<Rightarrow> Return (expanded @ current)
      | Some (index, len) \<Rightarrow>
         (case n of
            0 \<Rightarrow> OutOfFuel
          | Suc k \<Rightarrow>
             (case call current index len of
                OutOfFuel \<Rightarrow> OutOfFuel
              | Unmodelled \<Rightarrow> Unmodelled
              | Throw e \<Rightarrow> Throw e
              | Return (out, rest) \<Rightarrow> expand_loop k call macroName (expanded @ out) rest)))"

definition expandFunctionMacro ::
  "(string \<Rightarrow> Macros \<Rightarrow> string result) \<Rightarrow> nat \<Rightarrow> Macros \<Rightarrow> string \<Rightarrow> Macro \<Rightarrow> string \<Rightarrow> string result" where
  "expandFunctionMacro expand n macros macroName macro text =
     expand_loop n (expand_call expand macros macroName macro) macroName [] text"

fun reduce :: "('a \<Rightarrow> 'b \<Rightarrow> 'a result) \<Rightarrow> 'a \<Rightarrow> 'b list \<Rightarrow> 'a result" where
  "reduce f acc [] = Return acc"
| "reduce f acc (x # xs) =
     (case f acc x of
        OutOfFuel \<Rightarrow> OutOfFuel
      | Unmodelled \<Rightarrow> Unmodelled
      | Throw e \<Rightarrow> Throw e
      | Return acc' \<Rightarrow> reduce f acc' xs)"

text \<open>
  The macros that the model covers. The name of an object-like macro, which may come from
  the caller's \<open>defines\<close>, is an identifier in which full stops may stand after the first
  character. The name and the parameters of a function-like macro, which come from the
  grammar, are identifiers. For such names the regular expressions are the ones above, and
  \<open>Object.entries\<close> gives the macros in the order of their insertion (it puts the keys that
  are array indices first).
\<close>

definition is_digit :: "char \<Rightarrow> bool" where
  "is_digit c = (let n = (of_char c :: nat) in 48 \<le> n \<and> n \<le> 57)"

definition is_identifier :: "string \<Rightarrow> bool" where
  \<comment> \<open>a letter or an underscore, then letters, digits and underscores\<close>
  "is_identifier name =
     (name \<noteq> [] \<and> is_word_char (hd name) \<and> \<not> is_digit (hd name) \<and> list_all is_word_char name)"

definition is_name_pattern :: "string \<Rightarrow> bool" where
  \<comment> \<open>an identifier in which full stops may stand after the first character\<close>
  "is_name_pattern name =
     (name \<noteq> [] \<and> is_word_char (hd name) \<and> \<not> is_digit (hd name)
        \<and> list_all (\<lambda>c. is_word_char c \<or> c = CHR ''.'') name)"

definition modelled_macro :: "string \<times> Macro \<Rightarrow> bool" where
  "modelled_macro = (\<lambda>(name, macro).
     case macro_args macro of
       None \<Rightarrow> is_name_pattern name
     | Some params \<Rightarrow>
         is_identifier name
           \<and> list_all (\<lambda>p. is_identifier (identifier_of p)) (formal_params macro))"

primrec expandMacros :: "nat \<Rightarrow> string \<Rightarrow> Macros \<Rightarrow> string result" where
  "expandMacros 0 = (\<lambda>text macros. OutOfFuel)"
| "expandMacros (Suc n) = (\<lambda>text macros.
     if list_all modelled_macro macros
     then reduce (\<lambda>result (macroName, macro).
                    if macro_args macro \<noteq> None
                    then expandFunctionMacro (expandMacros n) n macros macroName macro result
                    else expandObjectMacro (expandMacros n) macros macroName macro result)
            text macros
     else Unmodelled)"

section \<open>The macros of a preprocessing run\<close>

fun assign :: "Macros \<Rightarrow> string \<Rightarrow> Macro \<Rightarrow> Macros" where
  \<comment> \<open>\<open>macros[name] = macro\<close>: a known name keeps its place, a new one goes last\<close>
  "assign [] name macro = [(name, macro)]"
| "assign ((k, v) # entries) name macro =
     (if k = name then (k, macro) # entries else (k, v) # assign entries name macro)"

definition initial_macros :: "(string \<times> string) list \<Rightarrow> Macros" where
  \<comment> \<open>the macros that \<open>preprocessAst\<close> starts from: one object-like macro per entry of
      \<open>options.defines\<close>\<close>
  "initial_macros defines =
     foldl (\<lambda>acc (name, body). assign acc name \<lparr>macro_args = None, macro_body = Some body\<rparr>)
       [] defines"

section \<open>Expressions of conditionals and their evaluation\<close>

definition and_then :: "'a result \<Rightarrow> ('a \<Rightarrow> 'b result) \<Rightarrow> 'b result" where
  \<comment> \<open>sequencing: the second computation runs when the first returns\<close>
  "and_then r f = (case r of
        OutOfFuel \<Rightarrow> OutOfFuel
      | Unmodelled \<Rightarrow> Unmodelled
      | Throw e \<Rightarrow> Throw e
      | Return v \<Rightarrow> f v)"

datatype expr =
    IntConstant string
  | Identifier string
  | UnaryDefined string
  | Group expr
  | Unary string expr
  | Binary expr string expr

text \<open>
  The values of the evaluator are JavaScript numbers, strings and booleans. The number type
  \<open>'n\<close> and the operators of the language on these values are parameters of the model.
\<close>

datatype 'n jsval = JNumber 'n | JString string | JBoolean bool

record 'n js_runtime =
  js_parseInt :: "string \<Rightarrow> 'n"
  js_binary :: "string \<Rightarrow> 'n jsval \<Rightarrow> 'n jsval \<Rightarrow> 'n jsval"
  js_negate :: "'n jsval \<Rightarrow> 'n jsval"
  js_bitnot :: "'n jsval \<Rightarrow> 'n jsval"
  js_number_truthy :: "'n \<Rightarrow> bool"

definition isTruthy :: "'n js_runtime \<Rightarrow> 'n jsval \<Rightarrow> bool" where
  "isTruthy rt x =
     (case x of JNumber n \<Rightarrow> js_number_truthy rt n | JString s \<Rightarrow> s \<noteq> [] | JBoolean b \<Rightarrow> b)"

definition object_prototype_names :: "string list" where
  \<comment> \<open>the property names that every object inherits from \<open>Object.prototype\<close>\<close>
  "object_prototype_names =
     [''constructor'', ''__defineGetter__'', ''__defineSetter__'', ''hasOwnProperty'',
      ''__lookupGetter__'', ''__lookupSetter__'', ''isPrototypeOf'', ''propertyIsEnumerable'',
      ''toString'', ''valueOf'', ''__proto__'', ''toLocaleString'']"

definition js_in :: "string \<Rightarrow> Macros \<Rightarrow> bool" where
  \<comment> \<open>\<open>name in macros\<close>: the operator holds for the names of the macros and for the
      inherited property names\<close>
  "js_in name macros = (name \<in> set (map fst macros) \<or> name \<in> set object_prototype_names)"

definition strict_operators :: "string list" where
  \<comment> \<open>the binary operators that evaluate both operands\<close>
  "strict_operators =
     [''*'', ''/'', ''%'', ''+'', ''-'', ''<<'', ''>>'', ''<'', ''>'', ''<='', ''>='', ''=='', ''!='',
      ''&'', ''^'', ''|'']"

fun evaluteExpression :: "'n js_runtime \<Rightarrow> expr \<Rightarrow> Macros \<Rightarrow> 'n jsval result" where
  "evaluteExpression rt (IntConstant token) macros = Return (JNumber (js_parseInt rt token))"
| "evaluteExpression rt (UnaryDefined name) macros = Return (JBoolean (js_in name macros))"
| "evaluteExpression rt (Identifier name) macros = Return (JString name)"
| "evaluteExpression rt (Group expression) macros = evaluteExpression rt expression macros"
| "evaluteExpression rt (Binary left op right) macros =
     (if op \<in> set strict_operators
      then and_then (evaluteExpression rt left macros) (\<lambda>l.
           and_then (evaluteExpression rt right macros) (\<lambda>r. Return (js_binary rt op l r)))
      else if op = ''&&''
      then and_then (evaluteExpression rt left macros) (\<lambda>l.
           if isTruthy rt l then evaluteExpression rt right macros else Return l)
      else if op = ''||''
      then and_then (evaluteExpression rt left macros) (\<lambda>l.
           if isTruthy rt l then Return l else evaluteExpression rt right macros)
      else Throw (Error (''Preprocessing error: Unknown binary operator '' @ op)))"
| "evaluteExpression rt (Unary op expression) macros =
     (if op = ''+'' then evaluteExpression rt expression macros
      else if op = ''-''
      then and_then (evaluteExpression rt expression macros) (\<lambda>v. Return (js_negate rt v))
      else if op = ''!''
      then and_then (evaluteExpression rt expression macros) (\<lambda>v. Return (JBoolean (\<not> isTruthy rt v)))
      else if op = ''~''
      then and_then (evaluteExpression rt expression macros) (\<lambda>v. Return (js_bitnot rt v))
      else Throw (Error (''Preprocessing error: Unknown unary operator '' @ op)))"

fun expand_in_expression :: "nat \<Rightarrow> Macros \<Rightarrow> expr \<Rightarrow> expr result" where
  \<comment> \<open>Modelled from the spec: the traversal of \<open>visit\<close> (\<open>../ast/visit.js\<close> is not in the
      sources), which enters every node before its children, from left to right, and does
      not visit the children of a node whose handler calls \<open>path.skip()\<close>. The handlers are
      those of \<open>expandInExpressions\<close>.\<close>
  "expand_in_expression fuel macros (Identifier name) =
     and_then (expandMacros fuel name macros) (\<lambda>name'. Return (Identifier name'))"
| "expand_in_expression fuel macros (UnaryDefined name) = Return (UnaryDefined name)"
| "expand_in_expression fuel macros (IntConstant token) = Return (IntConstant token)"
| "expand_in_expression fuel macros (Group expression) =
     and_then (expand_in_expression fuel macros expression) (\<lambda>e. Return (Group e))"
| "expand_in_expression fuel macros (Unary op expression) =
     and_then (expand_in_expression fuel macros expression) (\<lambda>e. Return (Unary op e))"
| "expand_in_expression fuel macros (Binary left op right) =
     and_then (expand_in_expression fuel macros left) (\<lambda>l.
     and_then (expand_in_expression fuel macros right) (\<lambda>r. Return (Binary l op r)))"

section \<open>The nodes of a program and the walker\<close>

datatype node =
    Text string
  | Define string "string option"
  | DefineArguments string "param list" "string option"
  | Undef string
  | Conditional if_part "(expr \<times> node list) list" "node list option"
  | Error_node string
  | Pragma string
  | Version string
  | Extension string
  | Line string
and if_part =
    If expr "node list"
  | IfDef string "node list"
  | IfNDef string "node list"

fun if_body :: "if_part \<Rightarrow> node list" where
  "if_body (If expression body) = body"
| "if_body (IfDef name body) = body"
| "if_body (IfNDef name body) = body"

fun with_if_body :: "if_part \<Rightarrow> node list \<Rightarrow> if_part" where
  "with_if_body (If expression body) body' = If expression body'"
| "with_if_body (IfDef name body) body' = IfDef name body'"
| "with_if_body (IfNDef name body) body' = IfNDef name body'"

datatype path = Visited | Removed | Replaced "node list"

record options =
  opt_defines :: "(string \<times> string) list"
  opt_preserve :: "node \<Rightarrow> bool"
  opt_stopOnError :: bool

definition expandInExpressions ::
  "nat \<Rightarrow> Macros \<Rightarrow> if_part \<Rightarrow> (expr \<times> node list) list
     \<Rightarrow> (if_part \<times> (expr \<times> node list) list) result" where
  \<comment> \<open>the expressions of the \<open>#if\<close> and of every \<open>#elif\<close>, in this order\<close>
  "expandInExpressions fuel macros ifPart elseIfParts =
     and_then (case ifPart of
                 If expression body \<Rightarrow>
                   and_then (expand_in_expression fuel macros expression) (\<lambda>e. Return (If e body))
               | _ \<Rightarrow> Return ifPart) (\<lambda>ifPart'.
     and_then (reduce (\<lambda>acc (expression, body).
                 and_then (expand_in_expression fuel macros expression)
                   (\<lambda>e. Return (acc @ [(e, body)]))) [] elseIfParts) (\<lambda>elseIfParts'.
     Return (ifPart', elseIfParts')))"

definition evaluateIfPart :: "'n js_runtime \<Rightarrow> Macros \<Rightarrow> if_part \<Rightarrow> 'n jsval result" where
  "evaluateIfPart rt macros ifPart =
     (case ifPart of
        If expression body \<Rightarrow> evaluteExpression rt expression macros
      | IfDef name body \<Rightarrow> Return (JBoolean (js_in name macros))
      | IfNDef name body \<Rightarrow> Return (JBoolean (\<not> js_in name macros)))"

definition conditional_enter ::
  "'n js_runtime \<Rightarrow> nat \<Rightarrow> Macros \<Rightarrow> if_part \<Rightarrow> (expr \<times> node list) list \<Rightarrow> node list option
     \<Rightarrow> path result" where
  \<comment> \<open>the \<open>enter\<close> handler of a conditional that is not preserved\<close>
  "conditional_enter rt fuel macros ifPart elseIfParts elsePart =
     and_then (expandInExpressions fuel macros ifPart elseIfParts) (\<lambda>(ifPart', elseIfParts').
     and_then (evaluateIfPart rt macros ifPart') (\<lambda>v.
       if isTruthy rt v then Return (Replaced (if_body ifPart'))
       else
         and_then (reduce (\<lambda>(res, path) (expression, body).
                     if res then Return (res, path)
                     else and_then (evaluteExpression rt expression macros) (\<lambda>v.
                            if isTruthy rt v then Return (True, Replaced body)
                            else Return (False, path)))
                   (False, Visited) elseIfParts') (\<lambda>(elseBranchHit, path).
           if \<not> elseBranchHit
           then (case elsePart of Some body \<Rightarrow> Return (Replaced body) | None \<Rightarrow> Return Removed)
           else Return path)))"

definition unless_preserved :: "options \<Rightarrow> node \<Rightarrow> path" where
  \<comment> \<open>\<open>!preserveNode(path) && path.remove()\<close>\<close>
  "unless_preserved opts n = (if opt_preserve opts n then Visited else Removed)"

definition enter ::
  "'n js_runtime \<Rightarrow> options \<Rightarrow> nat \<Rightarrow> Macros \<Rightarrow> node \<Rightarrow> (Macros \<times> node \<times> path) result" where
  \<comment> \<open>the \<open>enter\<close> handlers of \<open>preprocessAst\<close>: the macros and the node after the handler, and
      what the handler asked of the path. \<open>macros['__proto__'] = ...\<close> adds no macro but sets
      the prototype of the macros object, which the model does not cover.\<close>
  "enter rt opts fuel macros n =
     (case n of
        Conditional ifPart elseIfParts elsePart \<Rightarrow>
          if opt_preserve opts n then Return (macros, n, Visited)
          else and_then (conditional_enter rt fuel macros ifPart elseIfParts elsePart)
                 (\<lambda>p. Return (macros, n, p))
      | Text text \<Rightarrow>
          and_then (expandMacros fuel text macros) (\<lambda>text'. Return (macros, Text text', Visited))
      | DefineArguments name params body \<Rightarrow>
          if name = ''__proto__'' then Unmodelled
          else Return (assign macros name \<lparr>macro_args = Some params, macro_body = body\<rparr>, n,
                       unless_preserved opts n)
      | Define name body \<Rightarrow>
          if name = ''__proto__'' then Unmodelled
          else Return (assign macros name \<lparr>macro_args = None, macro_body = body\<rparr>, n,
                       unless_preserved opts n)
      | Undef name \<Rightarrow> Return (without macros name, n, unless_preserved opts n)
      | Error_node message \<Rightarrow>
          if opt_stopOnError opts then Throw (Error message)
          else Return (macros, n, unless_preserved opts n)
      | _ \<Rightarrow> Return (macros, n, unless_preserved opts n))"

lemma and_then_cong [fundef_cong]:
  "r = r' \<Longrightarrow> (\<And>v. r' = Return v \<Longrightarrow> f v = f' v) \<Longrightarrow> and_then r f = and_then r' f'"
  by (simp add: and_then_def split: result.splits)

text \<open>
  The walker. Modelled from the spec: \<open>visit\<close> (\<open>../ast/visit.js\<close>) is not in the sources. It
  is a single traversal that enters a node before its children, in source order: a node that
  its handler removed is dropped, a conditional that its handler replaced by a body has the
  nodes of that body visited in its place, and the children of any other node are visited
  before the nodes that follow it. The handlers (\<open>enter\<close>) are those of \<open>preprocessAst\<close>. The
  walker also returns its trace: every node it entered, with the macros at that moment.
\<close>

type_synonym trace = "(node \<times> Macros) list"

function walk_nodes ::
    "'n js_runtime \<Rightarrow> options \<Rightarrow> nat \<Rightarrow> Macros \<Rightarrow> node list \<Rightarrow> (Macros \<times> node list \<times> trace) result"
  and walk_children ::
    "'n js_runtime \<Rightarrow> options \<Rightarrow> nat \<Rightarrow> Macros \<Rightarrow> node \<Rightarrow> (Macros \<times> node \<times> trace) result"
  and walk_elifs ::
    "'n js_runtime \<Rightarrow> options \<Rightarrow> nat \<Rightarrow> Macros \<Rightarrow> (expr \<times> node list) list
       \<Rightarrow> (Macros \<times> (expr \<times> node list) list \<times> trace) result"
where
  "walk_nodes rt opts fuel macros [] = Return (macros, [], [])"
| "walk_nodes rt opts fuel macros (n # ns) =
     and_then (enter rt opts fuel macros n) (\<lambda>(macros1, n', p).
       case p of
         Removed \<Rightarrow>
           and_then (walk_nodes rt opts fuel macros1 ns) (\<lambda>(macros2, out, tr).
             Return (macros2, out, (n, macros) # tr))
       | Replaced body \<Rightarrow>
           and_then (walk_nodes rt opts fuel macros1 (body @ ns)) (\<lambda>(macros2, out, tr).
             Return (macros2, out, (n, macros) # tr))
       | Visited \<Rightarrow>
           and_then (walk_children rt opts fuel macros1 n') (\<lambda>(macros2, n'', tr1).
           and_then (walk_nodes rt opts fuel macros2 ns) (\<lambda>(macros3, out, tr2).
             Return (macros3, n'' # out, (n, macros) # tr1 @ tr2))))"
| "walk_children rt opts fuel macros (Conditional ifPart elseIfParts elsePart) =
     and_then (walk_nodes rt opts fuel macros (if_body ifPart)) (\<lambda>(macros1, body, tr1).
     and_then (walk_elifs rt opts fuel macros1 elseIfParts) (\<lambda>(macros2, elseIfParts', tr2).
     and_then (case elsePart of
                 None \<Rightarrow> Return (macros2, None, [])
               | Some e \<Rightarrow>
                   and_then (walk_nodes rt opts fuel macros2 e) (\<lambda>(macros3, e', tr3).
                     Return (macros3, Some e', tr3))) (\<lambda>(macros3, elsePart', tr3).
       Return (macros3, Conditional (with_if_body ifPart body) elseIfParts' elsePart',
               tr1 @ tr2 @ tr3))))"
| "walk_children rt opts fuel macros (Text v) = Return (macros, Text v, [])"
| "walk_children rt opts fuel macros (Define v va) = Return (macros, Define v va, [])"
| "walk_children rt opts fuel macros (DefineArguments v va vb) =
     Return (macros, DefineArguments v va vb, [])"
| "walk_children rt opts fuel macros (Undef v) = Return (macros, Undef v, [])"
| "walk_children rt opts fuel macros (Error_node v) = Return (macros, Error_node v, [])"
| "walk_children rt opts fuel macros (Pragma v) = Return (macros, Pragma v, [])"
| "walk_children rt opts fuel macros (Version v) = Return (macros, Version v, [])"
| "walk_children rt opts fuel macros (Extension v) = Return (macros, Extension v, [])"
| "walk_children rt opts fuel macros (Line v) = Return (macros, Line v, [])"
| "walk_elifs rt opts fuel macros [] = Return (macros, [], [])"
| "walk_elifs rt opts fuel macros ((expression, body) # elseIfParts) =
     and_then (walk_nodes rt opts fuel macros body) (\<lambda>(macros1, body', tr1).
     and_then (walk_elifs rt opts fuel macros1 elseIfParts) (\<lambda>(macros2, elseIfParts', tr2).
       Return (macros2, (expression, body') # elseIfParts', tr1 @ tr2)))"
  by pat_completeness auto

lemma and_then_Return:
  "(and_then r f = Return y) = (\<exists>v. r = Return v \<and> f v = Return y)"
  by (cases r) (simp_all add: and_then_def)

lemma reduce_append_bodies:
  "reduce (\<lambda>acc (expression, body).
             and_then (g expression) (\<lambda>e. Return (acc @ [(e, body)]))) acc elseIfParts = Return r
   \<Longrightarrow> map snd r = map snd acc @ map snd elseIfParts"
proof (induction elseIfParts arbitrary: acc)
  case Nil
  then show ?case by simp
next
  case (Cons x xs)
  obtain e b where x: "x = (e, b)" by (cases x)
  from Cons.prems x obtain e' where
    "reduce (\<lambda>acc (expression, body).
             and_then (g expression) (\<lambda>e. Return (acc @ [(e, body)]))) (acc @ [(e', b)]) xs = Return r"
    by (auto simp: and_then_def split: result.splits)
  from Cons.IH[OF this] x show ?case by simp
qed

lemma expandInExpressions_bodies:
  assumes "expandInExpressions fuel macros ifPart elseIfParts = Return (ifPart', elseIfParts')"
  shows "if_body ifPart' = if_body ifPart \<and> map snd elseIfParts' = map snd elseIfParts"
proof -
  from assms obtain ip where
    1: "(case ifPart of
          If expression body \<Rightarrow>
            and_then (expand_in_expression fuel macros expression) (\<lambda>e. Return (If e body))
        | _ \<Rightarrow> Return ifPart) = Return ip"
    and 2: "reduce (\<lambda>acc (expression, body).
                 and_then (expand_in_expression fuel macros expression)
                   (\<lambda>e. Return (acc @ [(e, body)]))) [] elseIfParts = Return elseIfParts'"
    and 3: "ifPart' = ip"
    by (auto simp: expandInExpressions_def and_then_Return)
  from 1 have "if_body ip = if_body ifPart"
    by (cases ifPart) (auto simp: and_then_Return)
  with reduce_append_bodies[OF 2] 3 show ?thesis by simp
qed

lemma elseBranchHit_path:
  "reduce (\<lambda>(res, path) (expression, body).
             if res then Return (res, path)
             else and_then (ev expression) (\<lambda>v.
                    if tr v then Return (True, Replaced body) else Return (False, path)))
      (res0, p0) elseIfParts = Return (res, p)
   \<Longrightarrow> p = p0 \<or> (\<exists>body \<in> snd ` set elseIfParts. p = Replaced body)"
proof (induction elseIfParts arbitrary: res0 p0)
  case Nil
  then show ?case by simp
next
  case (Cons x xs)
  obtain e b where x: "x = (e, b)" by (cases x)
  from Cons.prems x obtain res1 p1 where
    s: "(if res0 then Return (res0, p0)
         else and_then (ev e) (\<lambda>v.
                if tr v then Return (True, Replaced b) else Return (False, p0))) = Return (res1, p1)"
    and r: "reduce (\<lambda>(res, path) (expression, body).
             if res then Return (res, path)
             else and_then (ev expression) (\<lambda>v.
                    if tr v then Return (True, Replaced body) else Return (False, path)))
      (res1, p1) xs = Return (res, p)"
    by (auto split: result.splits)
  from s have "p1 = p0 \<or> p1 = Replaced b"
    by (auto simp: and_then_Return split: if_splits)
  with Cons.IH[OF r] x show ?case by auto
qed

lemma size_body_elifs:
  "body \<in> snd ` set elseIfParts \<Longrightarrow>
   size_list size body < size_list (size_prod (\<lambda>_. 0) (size_list size)) elseIfParts"
  by (induction elseIfParts) force+

lemma size_if_body: "size_list size (if_body ifPart) < size ifPart"
  by (cases ifPart) simp_all

lemma conditional_enter_size:
  assumes "conditional_enter rt fuel macros ifPart elseIfParts elsePart = Return (Replaced body)"
  shows "size_list size body \<le> size (Conditional ifPart elseIfParts elsePart)"
proof -
  from assms obtain ip' elifs' v where
    e: "expandInExpressions fuel macros ifPart elseIfParts = Return (ip', elifs')"
    and c: "(if isTruthy rt v then Return (Replaced (if_body ip'))
       else
         and_then (reduce (\<lambda>(res, path) (expression, body).
                     if res then Return (res, path)
                     else and_then (evaluteExpression rt expression macros) (\<lambda>v.
                            if isTruthy rt v then Return (True, Replaced body)
                            else Return (False, path)))
                   (False, Visited) elifs') (\<lambda>(elseBranchHit, path).
           if \<not> elseBranchHit
           then (case elsePart of Some body \<Rightarrow> Return (Replaced body) | None \<Rightarrow> Return Removed)
           else Return path)) = Return (Replaced body)"
    by (auto simp: conditional_enter_def and_then_Return)
  note b = expandInExpressions_bodies[OF e]
  show ?thesis
  proof (cases "isTruthy rt v")
    case True
    with c b size_if_body[of ifPart] show ?thesis by simp
  next
    case False
    with c obtain hit p where
      r: "reduce (\<lambda>(res, path) (expression, body).
                     if res then Return (res, path)
                     else and_then (evaluteExpression rt expression macros) (\<lambda>v.
                            if isTruthy rt v then Return (True, Replaced body)
                            else Return (False, path)))
                   (False, Visited) elifs' = Return (hit, p)"
      and f: "(if \<not> hit
           then (case elsePart of Some body \<Rightarrow> Return (Replaced body) | None \<Rightarrow> Return Removed)
           else Return p) = Return (Replaced body)"
      by (auto simp: and_then_Return)
    show ?thesis
    proof (cases hit)
      case True
      with f have "p = Replaced body" by simp
      with elseBranchHit_path[OF r] have "body \<in> snd ` set elifs'" by auto
      then have "body \<in> snd ` set elseIfParts" using b by (metis set_map)
      from size_body_elifs[OF this] show ?thesis by simp
    next
      case False
      with f show ?thesis by (cases elsePart) auto
    qed
  qed
qed

lemma enter_size:
  assumes "enter rt opts fuel macros n = Return (macros', n', p)"
  shows "size n' \<le> size n" and "p = Replaced body \<Longrightarrow> size_list size body \<le> size n"
proof -
  show "size n' \<le> size n"
    using assms
    by (cases n) (auto simp: enter_def and_then_Return split: if_splits)
  show "size_list size body \<le> size n" if "p = Replaced body"
  proof (cases n)
    case (Conditional ifPart elseIfParts elsePart)
    with assms that have "conditional_enter rt fuel macros ifPart elseIfParts elsePart
        = Return (Replaced body)"
      by (auto simp: enter_def and_then_Return split: if_splits)
    from conditional_enter_size[OF this] Conditional show ?thesis by simp
  qed (use assms that in \<open>auto simp: enter_def and_then_Return unless_preserved_def split: if_splits\<close>)
qed

lemma enter_size_tuple:
  assumes "enter rt opts fuel macros n = Return v"
  shows "size (fst (snd v)) \<le> size n"
    and "snd (snd v) = Replaced body \<Longrightarrow> size_list size body \<le> size n"
proof -
  obtain m n' p where v: "v = (m, n', p)" by (cases v)
  from enter_size(1)[of rt opts fuel macros n m n' p] assms v
  show "size (fst (snd v)) \<le> size n" by simp
  from enter_size(2)[of rt opts fuel macros n m n' p body] assms v
  show "snd (snd v) = Replaced body \<Longrightarrow> size_list size body \<le> size n" by simp
qed

termination walk_nodes
proof (relation "measure (\<lambda>x. case x of
            Inl (rt, opts, fuel, macros, ns) \<Rightarrow> 2 * size_list size ns
          | Inr (Inl (rt, opts, fuel, macros, n)) \<Rightarrow> 2 * size n + 1
          | Inr (Inr (rt, opts, fuel, macros, elifs)) \<Rightarrow>
              2 * size_list (size_prod (\<lambda>_. 0) (size_list size)) elifs)", goal_cases)
  case 1
  show ?case by simp
next
  case 2
  then show ?case by (auto dest: enter_size_tuple(1))
next
  case 3
  then show ?case by (auto dest: enter_size_tuple(1))
next
  case 4
  then show ?case by (auto dest: enter_size_tuple(1))
next
  case 5
  then show ?case by (auto dest: enter_size_tuple(2))
next
  case (6 rt opts fuel macros ifPart elseIfParts elsePart)
  then show ?case using size_if_body[of ifPart] by simp
next
  case 7
  then show ?case by simp
next
  case 8
  then show ?case by simp
next
  case 9
  then show ?case by simp
next
  case 10
  then show ?case by simp
qed

definition preprocessAst :: "'n js_runtime \<Rightarrow> nat \<Rightarrow> node list \<Rightarrow> options \<Rightarrow> node list result" where
  "preprocessAst rt fuel program opts =
     and_then (walk_nodes rt opts fuel (initial_macros (opt_defines opts)) program)
       (\<lambda>(macros, out, tr). Return out)"

section \<open>Notions used to state the properties\<close>

definition paren_depth :: "string \<Rightarrow> int" where
  \<comment> \<open>opening minus closing parentheses\<close>
  "paren_depth s = int (count_list s (CHR ''('')) - int (count_list s (CHR '')''))"

fun top_level_arg :: "int \<Rightarrow> string \<Rightarrow> bool" where
  \<comment> \<open>from depth \<open>d\<close>, the text closes every parenthesis it opens and has its commas inside
      parentheses only\<close>
  "top_level_arg d [] = (d = 0)"
| "top_level_arg d (c # cs) =
     (if c = CHR ''('' then top_level_arg (d + 1) cs
      else if c = CHR '')'' then 0 < d \<and> top_level_arg (d - 1) cs
      else if c = CHR '','' then 0 < d \<and> top_level_arg d cs
      else top_level_arg d cs)"

fun comma_separated :: "string list \<Rightarrow> string" where
  "comma_separated [] = []"
| "comma_separated [a] = a"
| "comma_separated (a # b # bs) = a @ '','' @ comma_separated (b # bs)"

definition occurs_as_word :: "string \<Rightarrow> string \<Rightarrow> bool" where
  \<comment> \<open>\<open>name\<close> stands in \<open>text\<close> between two word boundaries\<close>
  "occurs_as_word name text =
     (\<exists>pre post. text = pre @ name @ post
        \<and> word_boundary pre (name @ post) \<and> word_boundary (pre @ name) post)"

definition invoked :: "string \<Rightarrow> string \<Rightarrow> bool" where
  \<comment> \<open>\<open>name\<close>, white space and an opening parenthesis stand in \<open>text\<close> after a word boundary\<close>
  "invoked name text =
     (\<exists>pre ws post. text = pre @ name @ ws @ CHR ''('' # post
        \<and> word_boundary pre (name @ ws @ CHR ''('' # post) \<and> list_all is_space ws)"

fun handler_effect :: "Macros \<Rightarrow> node \<Rightarrow> Macros" where
  \<comment> \<open>what the handler of a node does to the macros object\<close>
  "handler_effect macros (Define name body) =
     assign macros name \<lparr>macro_args = None, macro_body = body\<rparr>"
| "handler_effect macros (DefineArguments name params body) =
     assign macros name \<lparr>macro_args = Some params, macro_body = body\<rparr>"
| "handler_effect macros (Undef name) = without macros name"
| "handler_effect macros n = macros"

definition handlers_effect :: "Macros \<Rightarrow> node list \<Rightarrow> Macros" where
  "handlers_effect macros ns = foldl handler_effect macros ns"










fun map_identifiers :: "(string \<Rightarrow> string) \<Rightarrow> expr \<Rightarrow> expr" where
  \<comment> \<open>the text of every \<open>Identifier\<close> replaced, the operand of \<open>defined\<close> left as it is\<close>
  "map_identifiers f (Identifier name) = Identifier (f name)"
| "map_identifiers f (UnaryDefined name) = UnaryDefined name"
| "map_identifiers f (IntConstant token) = IntConstant token"
| "map_identifiers f (Group e) = Group (map_identifiers f e)"
| "map_identifiers f (Unary op e) = Unary op (map_identifiers f e)"
| "map_identifiers f (Binary l op r) = Binary (map_identifiers f l) op (map_identifiers f r)"

fun identifiers :: "expr \<Rightarrow> string list" where
  \<comment> \<open>the texts of the \<open>Identifier\<close> nodes outside \<open>defined\<close>\<close>
  "identifiers (Identifier name) = [name]"
| "identifiers (UnaryDefined name) = []"
| "identifiers (IntConstant token) = []"
| "identifiers (Group e) = identifiers e"
| "identifiers (Unary op e) = identifiers e"
| "identifiers (Binary l op r) = identifiers l @ identifiers r"

definition entered :: "'n js_runtime \<Rightarrow> options \<Rightarrow> nat \<Rightarrow> trace \<Rightarrow> bool" where
  \<comment> \<open>every node of the trace had its handler run, and return, with the macros recorded\<close>
  "entered rt opts fuel tr = list_all (\<lambda>(n, m). \<exists>r. enter rt opts fuel m n = Return r) tr"

section \<open>The argument scanner: proofs\<close>

lemma paren_depth_Nil [simp]: "paren_depth [] = 0"
  by (simp add: paren_depth_def)

lemma paren_depth_Cons:
  "paren_depth (c # cs) =
     (if c = CHR ''('' then 1 else if c = CHR '')'' then - 1 else 0) + paren_depth cs"
  by (simp add: paren_depth_def)

lemma scan_loop_None:
  "0 \<le> p \<Longrightarrow>
   (scan_loop src i p args arg = None) = (\<forall>k\<le>length src. 0 \<le> p + paren_depth (take k src))"
proof (induction src arbitrary: i p args arg)
  case Nil
  then show ?case by simp
next
  case (Cons c src)
  let ?q = "p + (if c = CHR ''('' then 1 else if c = CHR '')'' then - 1 else 0)"
  have all: "(\<forall>k\<le>length (c # src). 0 \<le> p + paren_depth (take k (c # src)))
     = (0 \<le> p \<and> (\<forall>k\<le>length src. 0 \<le> ?q + paren_depth (take k src)))"
    (is "?L = ?R")
  proof
    assume l: ?L
    have "0 \<le> p + paren_depth (take (Suc k) (c # src))" if "k \<le> length src" for k
      using l that by (metis Suc_le_mono length_Cons)
    then show ?R using Cons.prems by (simp add: paren_depth_Cons add.assoc)
  next
    assume r: ?R
    show ?L
    proof (intro allI impI)
      fix k assume "k \<le> length (c # src)"
      then show "0 \<le> p + paren_depth (take k (c # src))"
        using r by (cases k) (auto simp: paren_depth_Cons add.assoc)
    qed
  qed
  show ?case
  proof (cases "?q = - 1")
    case True
    then have "\<not> (\<forall>k\<le>length src. 0 \<le> ?q + paren_depth (take k src))"
      by (auto intro!: exI[of _ 0])
    with True show ?thesis unfolding all by (auto simp: Let_def split: if_splits)
  next
    case False
    with Cons.prems have q: "0 \<le> ?q" by (auto split: if_splits)
    from False q Cons.prems show ?thesis
      unfolding all using Cons.IH[OF q] by (auto simp: Let_def)
  qed
qed

lemma scan_loop_arg:
  "0 \<le> d \<Longrightarrow> top_level_arg d a \<Longrightarrow>
   scan_loop (a @ s) i d args acc = scan_loop s (i + length a) 0 args (acc @ a)"
proof (induction a arbitrary: d i acc)
  case Nil
  then show ?case by simp
next
  case (Cons c a)
  then show ?case by (auto simp: Let_def split: if_splits)
qed

lemma scan_loop_args:
  "list_all (top_level_arg 0) (a # as) \<Longrightarrow>
   scan_loop (comma_separated (a # as) @ CHR '')'' # rest) i 0 args [] =
     Some (if a # as = [[]] \<and> args = [] then [] else args @ a # as,
           i + length (comma_separated (a # as)))"
proof (induction as arbitrary: a i args)
  case Nil
  then show ?case by (simp add: scan_loop_arg)
next
  case (Cons b bs)
  have "scan_loop (comma_separated (a # b # bs) @ CHR '')'' # rest) i 0 args [] =
        scan_loop (CHR '','' # comma_separated (b # bs) @ CHR '')'' # rest) (i + length a) 0 args a"
    using Cons.prems by (simp add: scan_loop_arg)
  also have "\<dots> =
        scan_loop (comma_separated (b # bs) @ CHR '')'' # rest) (i + length a + 1) 0 (args @ [a]) []"
    by simp
  also have "\<dots> = Some (args @ a # b # bs, i + length (comma_separated (a # b # bs)))"
    using Cons.prems Cons.IH[of b "i + length a + 1" "args @ [a]"] by simp
  finally show ?case by simp
qed

lemma scanFunctionArgs_args:
  "list_all (top_level_arg 0) as \<Longrightarrow> as \<noteq> [[]] \<Longrightarrow>
   scanFunctionArgs (comma_separated as @ CHR '')'' # rest) = Some (as, length (comma_separated as))"
  by (cases as) (simp_all add: scanFunctionArgs_def scan_loop_args)

lemma scanFunctionArgs_None:
  "(scanFunctionArgs src = None) = (\<forall>k\<le>length src. 0 \<le> paren_depth (take k src))"
  using scan_loop_None[of 0 src 0 "[]" "[]"] by (simp add: scanFunctionArgs_def)

section \<open>The regular expressions: proofs\<close>


lemma regex_exec_split:
  "regex_exec m pre rest = Some (index, len) \<Longrightarrow>
   \<exists>u v. rest = u @ v \<and> index = length pre + length u \<and> m (pre @ u) v = Some len
     \<and> (\<forall>u' v'. rest = u' @ v' \<and> length u' < length u \<longrightarrow> m (pre @ u') v' = None)"
proof (induction rest arbitrary: pre)
  case Nil
  then show ?case by (auto split: option.splits)
next
  case (Cons c cs)
  show ?case
  proof (cases "m pre (c # cs)")
    case None
    with Cons.prems have "regex_exec m (pre @ [c]) cs = Some (index, len)" by simp
    from Cons.IH[OF this] obtain u v where uv: "cs = u @ v" "index = length (pre @ [c]) + length u"
      "m ((pre @ [c]) @ u) v = Some len"
      "\<forall>u' v'. cs = u' @ v' \<and> length u' < length u \<longrightarrow> m ((pre @ [c]) @ u') v' = None"
      by blast
    have "\<forall>u' v'. c # cs = u' @ v' \<and> length u' < length (c # u) \<longrightarrow> m (pre @ u') v' = None"
    proof (intro allI impI)
      fix u' v' assume a: "c # cs = u' @ v' \<and> length u' < length (c # u)"
      show "m (pre @ u') v' = None"
      proof (cases u')
        case Nil
        with a None show ?thesis by simp
      next
        case (Cons d u'')
        with a uv(4) show ?thesis by auto
      qed
    qed
    with uv show ?thesis
      by (intro exI[of _ "c # u"] exI[of _ v]) simp
  next
    case (Some l)
    with Cons.prems show ?thesis
      by (intro exI[of _ "[]"] exI[of _ "c # cs"]) simp
  qed
qed

lemma regex_exec_None:
  "(regex_exec m pre rest = None) = (\<forall>u v. rest = u @ v \<longrightarrow> m (pre @ u) v = None)"
proof (induction rest arbitrary: pre)
  case Nil
  then show ?case by (auto split: option.splits)
next
  case (Cons c cs)
  show ?case
  proof (cases "m pre (c # cs)")
    case None
    have "(\<forall>u v. c # cs = u @ v \<longrightarrow> m (pre @ u) v = None)
        = (\<forall>u v. cs = u @ v \<longrightarrow> m ((pre @ [c]) @ u) v = None)" (is "?L = ?R")
    proof
      assume ?L then show ?R by (metis append.assoc append_Cons append_Nil)
    next
      assume r: ?R
      show ?L
      proof (intro allI impI)
        fix u v assume "c # cs = u @ v"
        then show "m (pre @ u) v = None" using None r by (cases u) auto
      qed
    qed
    with None Cons.IH[of "pre @ [c]"] show ?thesis by simp 
  next
    case (Some l)
    then have "\<not> (\<forall>u v. c # cs = u @ v \<longrightarrow> m (pre @ u) v = None)"
      by (metis append_Nil append_Nil2 option.distinct(1))
    with Some show ?thesis by simp
  qed
qed

lemma start_matcher_Some:
  assumes "start_matcher name pre rest = Some len"
  shows "\<exists>ws post. rest = name @ ws @ CHR ''('' # post \<and> list_all is_space ws
      \<and> len = length name + length ws + 1 \<and> word_boundary pre rest"
proof -
  define ws where "ws = takeWhile is_space (drop (length name) rest)"
  from assms have wb: "word_boundary pre rest" and nm: "take (length name) rest = name"
    by (auto simp: start_matcher_def split: if_splits)
  from assms wb nm obtain post where
    post: "drop (length name + length ws) rest = CHR ''('' # post"
    and len: "len = length name + length ws + 1"
    by (auto simp: start_matcher_def Let_def ws_def split: if_splits list.splits)
  have "drop (length name) rest = ws @ drop (length ws) (drop (length name) rest)"
    unfolding ws_def by (metis takeWhile_eq_take append_take_drop_id)
  also have "drop (length ws) (drop (length name) rest) = CHR ''('' # post"
    using post by (simp add: add.commute)
  finally have "rest = name @ ws @ CHR ''('' # post"
    using nm by (metis append_take_drop_id)
  moreover have "list_all is_space ws"
    unfolding ws_def list_all_iff by (auto dest: set_takeWhileD)
  ultimately show ?thesis using len wb by blast
qed

lemma start_matcher_intro:
  assumes "word_boundary pre (name @ ws @ CHR ''('' # post)" "list_all is_space ws"
  shows "start_matcher name pre (name @ ws @ CHR ''('' # post) = Some (length name + length ws + 1)"
proof -
  have ns: "\<not> is_space (CHR ''('')" by (simp add: is_space_def)
  have "takeWhile is_space (ws @ CHR ''('' # post) = ws"
    using assms(2) ns by (simp add: list_all_iff)
  then show ?thesis using assms(1)
    by (simp add: start_matcher_def Let_def)
qed

lemma invoked_iff: "invoked name text = (regex_exec (start_matcher name) [] text \<noteq> None)"
proof
  assume "invoked name text"
  then obtain pre ws post where t: "text = pre @ name @ ws @ CHR ''('' # post"
    and wb: "word_boundary pre (name @ ws @ CHR ''('' # post)" and ws: "list_all is_space ws"
    by (auto simp: invoked_def)
  from start_matcher_intro[OF wb ws] t show "regex_exec (start_matcher name) [] text \<noteq> None"
    by (auto simp: regex_exec_None)
next
  assume "regex_exec (start_matcher name) [] text \<noteq> None"
  then obtain index len where "regex_exec (start_matcher name) [] text = Some (index, len)"
    by auto
  from regex_exec_split[OF this] obtain u v where "text = u @ v" "start_matcher name u v = Some len"
    by auto
  with start_matcher_Some[of name u v len] show "invoked name text"
    by (auto simp: invoked_def)
qed

lemma pattern_literal:
  "CHR ''.'' \<notin> set name \<Longrightarrow> list_all2 pattern_character name s = (s = name)"
proof (induction name arbitrary: s)
  case Nil
  then show ?case by auto
next
  case (Cons p name)
  then show ?case by (cases s) (auto simp: pattern_character_def)
qed

lemma word_matcher_literal:
  "CHR ''.'' \<notin> set name \<Longrightarrow>
   word_matcher name pre rest =
     (if word_boundary pre rest \<and> take (length name) rest = name
         \<and> word_boundary (pre @ name) (drop (length name) rest)
      then Some (length name) else None)"
  by (auto simp: word_matcher_def pattern_literal)

lemma is_identifier_literal: "is_identifier name \<Longrightarrow> CHR ''.'' \<notin> set name"
  by (auto simp: is_identifier_def list_all_iff is_word_char_def)

lemma occurs_as_word_iff:
  assumes "CHR ''.'' \<notin> set name"
  shows "occurs_as_word name text = regex_test (word_matcher name) text"
proof
  assume "occurs_as_word name text"
  then obtain pre post where t: "text = pre @ name @ post"
    and wb: "word_boundary pre (name @ post)" "word_boundary (pre @ name) post"
    by (auto simp: occurs_as_word_def)
  then have "word_matcher name pre (name @ post) = Some (length name)"
    by (simp add: word_matcher_literal[OF assms])
  with t show "regex_test (word_matcher name) text"
    by (auto simp: regex_test_def regex_exec_None)
next
  assume "regex_test (word_matcher name) text"
  then obtain u v where uv: "text = u @ v" "word_matcher name u v \<noteq> None"
    by (auto simp: regex_test_def regex_exec_None)
  then have "word_boundary u v" "take (length name) v = name"
    "word_boundary (u @ name) (drop (length name) v)"
    by (auto simp: word_matcher_literal[OF assms] split: if_splits)
  moreover from this have "v = name @ drop (length name) v"
    by (metis append_take_drop_id)
  ultimately show "occurs_as_word name text"
    unfolding occurs_as_word_def using uv(1) by metis
qed

section \<open>One invocation of a function-like macro: proofs\<close>


declare expand_loop.simps [simp del]

lemma expandFunctionMacro_first:
  "regex_exec (start_matcher macroName) [] text = Some (index, len) \<Longrightarrow>
   expandFunctionMacro expand (Suc n) macros macroName macro text =
     (case expand_call expand macros macroName macro text index len of
        OutOfFuel \<Rightarrow> OutOfFuel
      | Unmodelled \<Rightarrow> Unmodelled
      | Throw e \<Rightarrow> Throw e
      | Return (out, rest) \<Rightarrow>
          expand_loop n (expand_call expand macros macroName macro) macroName out rest)"
  by (simp add: expandFunctionMacro_def expand_loop.simps[of "Suc n"] split: result.splits)

lemma expandFunctionMacro_no_match:
  "regex_exec (start_matcher macroName) [] text = None \<Longrightarrow>
   expandFunctionMacro expand n macros macroName macro text = Return text"
  by (simp add: expandFunctionMacro_def expand_loop.simps[of n])

lemma expand_call_unterminated:
  "scanFunctionArgs (drop (index + len) current) = None \<Longrightarrow>
   expand_call expand macros macroName macro current index len =
     Throw (Error (take len (drop index current) @ '' unterminated macro invocation''))"
  by (simp add: expand_call_def unterminated_def)

lemma formal_params_eq:
  "macro_args macro = Some params \<Longrightarrow>
   formal_params macro = filter (\<lambda>a. a \<noteq> Literal_node '','') params"
proof -
  have "(literal_of a \<noteq> Some '','') = (a \<noteq> Literal_node '','')" for a
    by (cases a) auto
  then show "macro_args macro = Some params \<Longrightarrow> ?thesis"
    by (simp add: formal_params_def)
qed

lemma expand_call_too_many:
  "scanFunctionArgs (drop (index + len) current) = Some (actual, argLength) \<Longrightarrow>
   length (formal_params macro) < length actual \<Longrightarrow>
   expand_call expand macros macroName macro current index len =
     Throw (Error ([CHR 0x27] @ macroName @ [CHR 0x27] @ '': Too many arguments for macro''))"
  by (simp add: expand_call_def too_many_def Let_def)

lemma expand_call_not_enough:
  "scanFunctionArgs (drop (index + len) current) = Some (actual, argLength) \<Longrightarrow>
   length actual < length (formal_params macro) \<Longrightarrow>
   expand_call expand macros macroName macro current index len =
     Throw (Error ([CHR 0x27] @ macroName @ [CHR 0x27] @ '': Not enough arguments for macro''))"
  by (simp add: expand_call_def not_enough_def Let_def)

section \<open>More fuel does not change a result\<close>


lemma expand_args_mono:
  assumes "\<And>t m. e t m \<noteq> OutOfFuel \<Longrightarrow> e' t m = e t m"
  shows "expand_args e macros args \<noteq> OutOfFuel \<Longrightarrow>
         expand_args e' macros args = expand_args e macros args"
proof (induction args)
  case Nil
  then show ?case by simp
next
  case (Cons a args)
  from Cons.prems have 1: "e (trim a) macros \<noteq> OutOfFuel"
    by (auto split: result.splits)
  show ?case
  proof (cases "e (trim a) macros")
    case OutOfFuel
    with 1 show ?thesis by simp
  next
    case Unmodelled
    with assms[OF 1] show ?thesis by simp
  next
    case (Throw x)
    with assms[OF 1] show ?thesis by simp
  next
    case (Return v)
    with Cons.prems have "expand_args e macros args \<noteq> OutOfFuel"
      by (auto split: result.splits)
    from Cons.IH[OF this] Return assms[OF 1] show ?thesis by simp
  qed
qed

lemma replace_call_mono:
  assumes "\<And>t m. e t m \<noteq> OutOfFuel \<Longrightarrow> e' t m = e t m"
    and "replace_call e macros macroName macro args \<noteq> OutOfFuel"
  shows "replace_call e' macros macroName macro args = replace_call e macros macroName macro args"
proof -
  from assms(2) have 1: "expand_args e macros args \<noteq> OutOfFuel"
    by (auto simp: replace_call_def split: result.splits)
  note 2 = expand_args_mono[of e e', OF assms(1) 1]
  show ?thesis
  proof (cases "expand_args e macros args")
    case OutOfFuel
    with 1 show ?thesis by simp
  next
    case Unmodelled
    with 2 show ?thesis by (simp add: replace_call_def)
  next
    case (Throw x)
    with 2 show ?thesis by (simp add: replace_call_def)
  next
    case (Return vs)
    with 2 assms show ?thesis
      by (auto simp: replace_call_def split: option.splits)
  qed
qed

lemma expand_call_mono:
  assumes "\<And>t m. e t m \<noteq> OutOfFuel \<Longrightarrow> e' t m = e t m"
    and "expand_call e macros macroName macro current index len \<noteq> OutOfFuel"
  shows "expand_call e' macros macroName macro current index len =
         expand_call e macros macroName macro current index len"
proof (cases "scanFunctionArgs (drop (index + len) current)")
  case None
  then show ?thesis by (simp add: expand_call_def)
next
  case (Some r)
  obtain args argLength where r: "r = (args, argLength)" by (cases r)
  show ?thesis
  proof (cases "length args = length (formal_params macro)")
    case False
    with Some r show ?thesis by (auto simp: expand_call_def Let_def)
  next
    case True
    with Some r assms(2) have "replace_call e macros macroName macro args \<noteq> OutOfFuel"
      by (auto simp: expand_call_def Let_def split: result.splits)
    from replace_call_mono[of e e', OF assms(1) this] Some r show ?thesis
      by (simp add: expand_call_def Let_def)
  qed
qed

lemma expandObjectMacro_mono:
  assumes "\<And>t m. e t m \<noteq> OutOfFuel \<Longrightarrow> e' t m = e t m"
    and "expandObjectMacro e macros macroName macro text \<noteq> OutOfFuel"
  shows "expandObjectMacro e' macros macroName macro text =
         expandObjectMacro e macros macroName macro text"
  using assms by (auto simp: expandObjectMacro_def split: result.splits)

lemma expand_loop_mono:
  assumes "\<And>c i l. call c i l \<noteq> OutOfFuel \<Longrightarrow> call' c i l = call c i l"
  shows "n \<le> n' \<Longrightarrow> expand_loop n call macroName expanded current \<noteq> OutOfFuel \<Longrightarrow>
         expand_loop n' call' macroName expanded current =
         expand_loop n call macroName expanded current"
proof (induction n arbitrary: n' expanded current)
  case 0
  then show ?case
    by (auto simp: expand_loop.simps[of 0] expand_loop.simps[of n'] split: option.splits)
next
  case (Suc n)
  then obtain k where n': "n' = Suc k" and k: "n \<le> k" by (cases n') auto
  show ?case
  proof (cases "regex_exec (start_matcher macroName) [] current")
    case None
    then show ?thesis
      by (simp add: expand_loop.simps[of "Suc n"] expand_loop.simps[of n'])
  next
    case (Some r)
    obtain index len where r: "r = (index, len)" by (cases r)
    from Suc.prems(2) Some r have 1: "call current index len \<noteq> OutOfFuel"
      by (auto simp: expand_loop.simps[of "Suc n"] split: result.splits)
    show ?thesis
    proof (cases "call current index len")
      case OutOfFuel
      with 1 show ?thesis by simp
    next
      case Unmodelled
      with assms[OF 1] Some r n' show ?thesis
        by (simp add: expand_loop.simps[of "Suc n"] expand_loop.simps[of "Suc k"])
    next
      case (Throw x)
      with assms[OF 1] Some r n' show ?thesis
        by (simp add: expand_loop.simps[of "Suc n"] expand_loop.simps[of "Suc k"])
    next
      case (Return p)
      obtain out rest where p: "p = (out, rest)" by (cases p)
      from Suc.prems(2) Some r Return p
      have "expand_loop n call macroName (expanded @ out) rest \<noteq> OutOfFuel"
        by (simp add: expand_loop.simps[of "Suc n"])
      from Suc.IH[OF k this] assms[OF 1] Some r n' Return p show ?thesis
        by (simp add: expand_loop.simps[of "Suc n"] expand_loop.simps[of "Suc k"])
    qed
  qed
qed

lemma reduce_mono:
  assumes "\<And>acc x. f acc x \<noteq> OutOfFuel \<Longrightarrow> g acc x = f acc x"
  shows "reduce f acc xs \<noteq> OutOfFuel \<Longrightarrow> reduce g acc xs = reduce f acc xs"
proof (induction xs arbitrary: acc)
  case Nil
  then show ?case by simp
next
  case (Cons x xs)
  from Cons.prems have 1: "f acc x \<noteq> OutOfFuel" by (auto split: result.splits)
  show ?case
  proof (cases "f acc x")
    case OutOfFuel
    with 1 show ?thesis by simp
  next
    case Unmodelled
    with assms[OF 1] show ?thesis by simp
  next
    case (Throw e)
    with assms[OF 1] show ?thesis by simp
  next
    case (Return acc')
    with Cons.prems have "reduce f acc' xs \<noteq> OutOfFuel" by simp
    from Cons.IH[OF this] Return assms[OF 1] show ?thesis by simp
  qed
qed

lemma expandMacros_Suc:
  "expandMacros n text macros \<noteq> OutOfFuel \<Longrightarrow>
   expandMacros (Suc n) text macros = expandMacros n text macros"
proof (induction n arbitrary: "text" macros)
  case 0
  then show ?case by simp
next
  case (Suc n)
  have e: "\<And>t m. expandMacros n t m \<noteq> OutOfFuel \<Longrightarrow> expandMacros (Suc n) t m = expandMacros n t m"
    using Suc.IH by blast
  let ?f = "\<lambda>result (macroName, macro).
               if macro_args macro \<noteq> None
               then expandFunctionMacro (expandMacros n) n macros macroName macro result
               else expandObjectMacro (expandMacros n) macros macroName macro result"
  let ?g = "\<lambda>result (macroName, macro).
               if macro_args macro \<noteq> None
               then expandFunctionMacro (expandMacros (Suc n)) (Suc n) macros macroName macro result
               else expandObjectMacro (expandMacros (Suc n)) macros macroName macro result"
  have fg: "?g acc x = ?f acc x" if "?f acc x \<noteq> OutOfFuel" for acc x
  proof (cases x)
    case (Pair macroName macro)
    show ?thesis
    proof (cases "macro_args macro \<noteq> None")
      case True
      have "expand_loop (Suc n) (expand_call (expandMacros (Suc n)) macros macroName macro)
              macroName [] acc
          = expand_loop n (expand_call (expandMacros n) macros macroName macro) macroName [] acc"
        using that Pair True
        by (intro expand_loop_mono expand_call_mono e) (auto simp: expandFunctionMacro_def)
      with Pair True show ?thesis by (simp add: expandFunctionMacro_def)
    next
      case False
      with that Pair expandObjectMacro_mono[of "expandMacros n" "expandMacros (Suc n)", OF e]
      show ?thesis by auto
    qed
  qed
  show ?case
  proof (cases "list_all modelled_macro macros")
    case True
    with Suc.prems have "reduce ?f text macros \<noteq> OutOfFuel" by simp
    from reduce_mono[of ?f ?g, OF fg this] True show ?thesis by simp
  next
    case False
    then show ?thesis by simp
  qed
qed

lemma expandMacros_mono:
  "n \<le> n' \<Longrightarrow> expandMacros n text macros \<noteq> OutOfFuel \<Longrightarrow>
   expandMacros n' text macros = expandMacros n text macros"
proof (induction n' arbitrary: n)
  case 0
  then show ?case by simp
next
  case (Suc n')
  show ?case
  proof (cases "n = Suc n'")
    case True
    then show ?thesis by simp
  next
    case False
    with Suc.prems have le: "n \<le> n'" by simp
    from Suc.IH[OF le Suc.prems(2)] Suc.prems(2) expandMacros_Suc[of n' "text" macros]
    show ?thesis by simp
  qed
qed

section \<open>Arguments without parentheses and commas\<close>




lemma regex_replace_all_empty_matches:
  "regex_replace_all (\<lambda>pre rest. Some 0) (\<lambda>matched pre post. matched) pre s = s"
  by (induction s arbitrary: pre) auto

lemma substitute_params_none: "substitute_params [] values body = body"
proof -
  have "alternatives_matcher [] = (\<lambda>pre rest. Some 0)"
    by (intro ext) (simp add: alternatives_matcher_def)
  then show ?thesis
    by (simp add: substitute_params_def regex_replace_all_empty_matches)
qed

section \<open>The claims about one invocation\<close>

text \<open>
  C4. The argument scanner, started just after the opening parenthesis, tracks the
  parenthesis depth: a comma at depth 0 ends an argument, and the closing parenthesis that
  takes the depth from 0 to \<open>-1\<close> ends the call. So a list \<open>as\<close> of arguments, each closing
  its own parentheses and with commas inside parentheses only, is recovered from its
  comma-separated text followed by \<open>)\<close>, with the length of that text; \<open>M()\<close> yields no
  argument, \<open>M(,)\<close> two empty arguments and \<open>M(a)\<close> one argument. The scanner reaches the end
  of the input exactly when no prefix closes more parentheses than it opens, and then
  \<open>expandFunctionMacro\<close> fails with the matched text (the macro name, white space and the
  opening parenthesis) followed by \<open>unterminated macro invocation\<close>.
\<close>

theorem scanFunctionArgs_invocation:
  "(list_all (top_level_arg 0) as \<longrightarrow> as \<noteq> [[]] \<longrightarrow>
      scanFunctionArgs (comma_separated as @ CHR '')'' # rest)
        = Some (as, length (comma_separated as)))
   \<and> scanFunctionArgs (CHR '')'' # rest) = Some ([], 0)
   \<and> scanFunctionArgs ('','' @ CHR '')'' # rest) = Some ([[], []], 1)
   \<and> scanFunctionArgs (''a'' @ CHR '')'' # rest) = Some ([''a''], 1)
   \<and> ((scanFunctionArgs src = None) = (\<forall>k\<le>length src. 0 \<le> paren_depth (take k src)))
   \<and> (regex_exec (start_matcher macroName) [] text = Some (index, len) \<longrightarrow>
        scanFunctionArgs (drop (index + len) text) = None \<longrightarrow>
        (\<exists>ws. list_all is_space ws \<and> take len (drop index text) = macroName @ ws @ ''('')
        \<and> expandFunctionMacro expand (Suc n) macros macroName macro text
            = Throw (Error (take len (drop index text) @ '' unterminated macro invocation'')))"
proof -
  have 1: "list_all (top_level_arg 0) as \<longrightarrow> as \<noteq> [[]] \<longrightarrow>
      scanFunctionArgs (comma_separated as @ CHR '')'' # rest)
        = Some (as, length (comma_separated as))"
    by (simp add: scanFunctionArgs_args)
  have 2: "scanFunctionArgs (CHR '')'' # rest) = Some ([], 0)"
    by (simp add: scanFunctionArgs_def)
  have 3: "scanFunctionArgs ('','' @ CHR '')'' # rest) = Some ([[], []], 1)"
    by (simp add: scanFunctionArgs_def)
  have 4: "scanFunctionArgs (''a'' @ CHR '')'' # rest) = Some ([''a''], 1)"
    by (simp add: scanFunctionArgs_def)
  have 6: "(\<exists>ws. list_all is_space ws \<and> take len (drop index text) = macroName @ ws @ ''('')
        \<and> expandFunctionMacro expand (Suc n) macros macroName macro text
            = Throw (Error (take len (drop index text) @ '' unterminated macro invocation''))"
    if m: "regex_exec (start_matcher macroName) [] text = Some (index, len)"
      and s: "scanFunctionArgs (drop (index + len) text) = None"
  proof -
    from regex_exec_split[OF m] obtain u v where uv: "text = u @ v" "index = length u"
      "start_matcher macroName u v = Some len" by auto
    from start_matcher_Some[OF uv(3)] obtain ws post where
      w: "v = macroName @ ws @ CHR ''('' # post" "list_all is_space ws"
         "len = length macroName + length ws + 1" by blast
    have "take len (drop index text) = macroName @ ws @ ''(''"
      using uv(1,2) w(1,3) by simp
    with w(2) expandFunctionMacro_first[OF m, of expand n macros macro]
      expand_call_unterminated[OF s, of expand macros macroName macro]
    show ?thesis by auto
  qed
  from 1 2 3 4 scanFunctionArgs_None[of src] 6 show ?thesis by blast
qed

text \<open>
  The scanner on the arguments of \<open>foo(x + y, (z-t))\<close> and on an unclosed text, and the test
  suite's unterminated call.
\<close>

theorem scanFunctionArgs_invocation_witness:
  "scanFunctionArgs ''x + y, (z-t))'' = Some ([''x + y'', '' (z-t)''], 12)
   \<and> scanFunctionArgs ''(a'' = None
   \<and> expandFunctionMacro (expandMacros 0) (Suc 0) [] ''foo''
        \<lparr>macro_args = Some [], macro_body = Some ''yes expand''\<rparr> (''foo('' @ [CHR 0x0A] @ ''foo()'')
      = Throw (Error ''foo( unterminated macro invocation'')"
proof -
  let ?t = "''foo('' @ [CHR 0x0A] @ ''foo()''"
  have h1: "list_all (top_level_arg 0) [''x + y'', '' (z-t)'']" by simp
  have h2: "[''x + y'', '' (z-t)''] \<noteq> [[]]" by simp
  have h3: "\<forall>k\<le>length ''(a''. 0 \<le> paren_depth (take k ''(a'')"
    by (auto simp: paren_depth_def le_Suc_eq take_Cons')
  have h4: "regex_exec (start_matcher ''foo'') [] ?t = Some (0, 4)" by code_simp
  have h5: "scanFunctionArgs (drop (0 + 4) ?t) = None" by code_simp
  note inst = scanFunctionArgs_invocation[of "[''x + y'', '' (z-t)'']" "[]" "''(a''" "''foo''" ?t 0 4
      "expandMacros 0" 0 "[]" "\<lparr>macro_args = Some [], macro_body = Some ''yes expand''\<rparr>"]
  from inst h1 h2 have "scanFunctionArgs (comma_separated [''x + y'', '' (z-t)''] @ CHR '')'' # [])
        = Some ([''x + y'', '' (z-t)''], length (comma_separated [''x + y'', '' (z-t)'']))"
    by blast
  then have c1: "scanFunctionArgs ''x + y, (z-t))'' = Some ([''x + y'', '' (z-t)''], 12)"
    by simp
  from inst h3 have c2: "scanFunctionArgs ''(a'' = None" by blast
  from inst h4 h5 have "expandFunctionMacro (expandMacros 0) (Suc 0) [] ''foo''
        \<lparr>macro_args = Some [], macro_body = Some ''yes expand''\<rparr> ?t
      = Throw (Error (take 4 (drop 0 ?t) @ '' unterminated macro invocation''))"
    by blast
  then have c3: "expandFunctionMacro (expandMacros 0) (Suc 0) [] ''foo''
        \<lparr>macro_args = Some [], macro_body = Some ''yes expand''\<rparr> ?t
      = Throw (Error ''foo( unterminated macro invocation'')"
    by simp
  from c1 c2 c3 show ?thesis by blast
qed

text \<open>
  C5. With \<open>actual\<close> the scanned arguments of an invocation of \<open>M\<close> and \<open>formal\<close> the
  parameters of \<open>M\<close> without the comma literals, the invocation fails with
  \<open>'M': Too many arguments for macro\<close> when \<open>actual\<close> is longer than \<open>formal\<close> and with
  \<open>'M': Not enough arguments for macro\<close> when it is shorter: for every iteration of the loop
  (\<open>expand_call\<close>), and so for \<open>expandFunctionMacro\<close> at the first invocation in its text.
  With \<open>#define foo( a, b ) a + b\<close>, expanding \<open>foo(1,2,3)\<close> raises
  \<open>'foo': Too many arguments for macro\<close>.
\<close>

theorem arity_errors:
  "(macro_args macro = Some params \<longrightarrow>
    scanFunctionArgs (drop (index + len) current) = Some (actual, argLength) \<longrightarrow>
      (length (filter (\<lambda>p. p \<noteq> Literal_node '','') params) < length actual \<longrightarrow>
         expand_call expand macros macroName macro current index len
           = Throw (Error ([CHR 0x27] @ macroName @ [CHR 0x27] @ '': Too many arguments for macro''))
         \<and> (regex_exec (start_matcher macroName) [] current = Some (index, len) \<longrightarrow>
              expandFunctionMacro expand (Suc n) macros macroName macro current
                = Throw (Error ([CHR 0x27] @ macroName @ [CHR 0x27]
                           @ '': Too many arguments for macro''))))
    \<and> (length actual < length (filter (\<lambda>p. p \<noteq> Literal_node '','') params) \<longrightarrow>
         expand_call expand macros macroName macro current index len
           = Throw (Error ([CHR 0x27] @ macroName @ [CHR 0x27] @ '': Not enough arguments for macro''))
         \<and> (regex_exec (start_matcher macroName) [] current = Some (index, len) \<longrightarrow>
              expandFunctionMacro expand (Suc n) macros macroName macro current
                = Throw (Error ([CHR 0x27] @ macroName @ [CHR 0x27]
                           @ '': Not enough arguments for macro'')))))
   \<and> expandMacros (Suc (Suc n)) ''foo(1,2,3)''
        [(''foo'', \<lparr>macro_args = Some [Identifier_node ''a'', Literal_node '','', Identifier_node ''b''],
                   macro_body = Some ''a + b''\<rparr>)]
      = Throw (Error ([CHR 0x27] @ ''foo'' @ [CHR 0x27] @ '': Too many arguments for macro''))"
proof -
  let ?m = "[(''foo'', \<lparr>macro_args = Some [Identifier_node ''a'', Literal_node '','', Identifier_node ''b''],
                   macro_body = Some ''a + b''\<rparr>)]"
  have "expandMacros 2 ''foo(1,2,3)'' ?m
      = Throw (Error ([CHR 0x27] @ ''foo'' @ [CHR 0x27] @ '': Too many arguments for macro''))"
    by code_simp
  with expandMacros_mono[of 2 "Suc (Suc n)" "''foo(1,2,3)''" ?m]
  have ex: "expandMacros (Suc (Suc n)) ''foo(1,2,3)'' ?m
      = Throw (Error ([CHR 0x27] @ ''foo'' @ [CHR 0x27] @ '': Too many arguments for macro''))"
    by simp
  show ?thesis
    using ex
    by (auto simp: formal_params_eq[symmetric] expand_call_too_many expand_call_not_enough
        expandFunctionMacro_first)
qed

text \<open>
  The test suite's \<open>foo(1)\<close> for two parameters and \<open>foo(,)\<close> for one.
\<close>

theorem arity_errors_witness:
  "expand_call (expandMacros 0) [] ''foo''
     \<lparr>macro_args = Some [Identifier_node ''a'', Literal_node '','', Identifier_node ''b''],
      macro_body = Some ''a + b''\<rparr> ''foo(1)'' 0 4
   = Throw (Error ([CHR 0x27] @ ''foo'' @ [CHR 0x27] @ '': Not enough arguments for macro''))
   \<and> expandFunctionMacro (expandMacros 0) (Suc 0) [] ''foo''
     \<lparr>macro_args = Some [Identifier_node ''a''], macro_body = Some ''a + b''\<rparr> ''foo(,)''
   = Throw (Error ([CHR 0x27] @ ''foo'' @ [CHR 0x27] @ '': Too many arguments for macro''))"
proof -
  let ?m1 = "\<lparr>macro_args = Some [Identifier_node ''a'', Literal_node '','', Identifier_node ''b''],
      macro_body = Some ''a + b''\<rparr>"
  let ?m2 = "\<lparr>macro_args = Some [Identifier_node ''a''], macro_body = Some ''a + b''\<rparr>"
  have a1: "scanFunctionArgs (drop (0 + 4) ''foo(1)'') = Some ([''1''], 1)" by code_simp
  have a2: "scanFunctionArgs (drop (0 + 4) ''foo(,)'') = Some ([[], []], 1)" by code_simp
  have a3: "regex_exec (start_matcher ''foo'') [] ''foo(,)'' = Some (0, 4)" by code_simp
  from arity_errors[of ?m1 "[Identifier_node ''a'', Literal_node '','', Identifier_node ''b'']"
      0 4 "''foo(1)''" "[''1'']" 1 "expandMacros 0" "[]" "''foo''" 0] a1
  have 1: "expand_call (expandMacros 0) [] ''foo'' ?m1 ''foo(1)'' 0 4
   = Throw (Error ([CHR 0x27] @ ''foo'' @ [CHR 0x27] @ '': Not enough arguments for macro''))"
    by simp
  from arity_errors[of ?m2 "[Identifier_node ''a'']"
      0 4 "''foo(,)''" "[[], []]" 1 "expandMacros 0" "[]" "''foo''" 0] a2 a3
  have 2: "expandFunctionMacro (expandMacros 0) (Suc 0) [] ''foo'' ?m2 ''foo(,)''
   = Throw (Error ([CHR 0x27] @ ''foo'' @ [CHR 0x27] @ '': Too many arguments for macro''))"
    by simp
  from 1 2 show ?thesis by simp
qed



section \<open>Replacement patterns in an expansion\<close>

declare expandMacros.simps [simp del]

text \<open>
  With \<open>#define fo() $&$&\<close>, one iteration of the loop of \<open>expandFunctionMacro\<close> on \<open>fo()\<close>
  adds \<open>fo()\<close> to \<open>expanded\<close> and leaves \<open>fo()\<close> as \<open>current\<close>: \<open>current.replace\<close> reads \<open>$&\<close>
  in the expansion as the matched text.
\<close>

lemma fo_call:
  "expand_call (expandMacros (Suc j)) [(''fo'', \<lparr>macro_args = Some [], macro_body = Some ''$&$&''\<rparr>)]
     ''fo'' \<lparr>macro_args = Some [], macro_body = Some ''$&$&''\<rparr> ''fo()'' 0 3
   = Return (''fo()'', ''fo()'')"
proof -
  let ?m = "\<lparr>macro_args = Some [], macro_body = Some ''$&$&''\<rparr>"
  have 1: "scanFunctionArgs (drop (0 + 3) ''fo()'') = Some ([], 0)" by code_simp
  have 2: "formal_params ?m = []" by code_simp
  have t: "tokenPaste ''$&$&'' = ''$&$&''" by code_simp
  have 3: "tokenPaste (substitute_params [] [] ''$&$&'') = ''$&$&''"
    by (simp only: substitute_params_none t)
  have 4: "without [(''fo'', ?m)] ''fo'' = []" by code_simp
  have 5: "replace_string ''fo()'' ''fo()'' ''$&$&'' = ''fo()fo()''"
    by code_simp
  have 6: "replace_call (expandMacros (Suc j)) [(''fo'', ?m)] ''fo'' ?m [] = Return ''$&$&''"
    unfolding replace_call_def 2 by (simp add: 3 4 expandMacros.simps)
  show ?thesis
    unfolding expand_call_def 1 by (simp add: 2 6 5 Let_def)
qed

lemma fo_loop:
  "expand_loop n
     (expand_call (expandMacros j) [(''fo'', \<lparr>macro_args = Some [], macro_body = Some ''$&$&''\<rparr>)]
        ''fo'' \<lparr>macro_args = Some [], macro_body = Some ''$&$&''\<rparr>)
     ''fo'' expanded ''fo()'' = OutOfFuel"
proof (induction n arbitrary: expanded)
  case 0
  have "regex_exec (start_matcher ''fo'') [] ''fo()'' = Some (0, 3)" by code_simp
  then show ?case by (simp add: expand_loop.simps[of 0])
next
  case (Suc n)
  have m: "regex_exec (start_matcher ''fo'') [] ''fo()'' = Some (0, 3)" by code_simp
  show ?case
  proof (cases j)
    case 0
    have "scanFunctionArgs (drop (0 + 3) ''fo()'') = Some ([], 0)" by code_simp
    moreover have "formal_params \<lparr>macro_args = Some [], macro_body = Some ''$&$&''\<rparr> = []"
      by code_simp
    ultimately have "expand_call (expandMacros 0)
        [(''fo'', \<lparr>macro_args = Some [], macro_body = Some ''$&$&''\<rparr>)]
        ''fo'' \<lparr>macro_args = Some [], macro_body = Some ''$&$&''\<rparr> ''fo()'' 0 3 = OutOfFuel"
      by (simp add: expand_call_def replace_call_def expandMacros.simps)
    with m 0 show ?thesis by (simp add: expand_loop.simps[of "Suc n"])
  next
    case (Suc j')
    with m fo_call[of j'] Suc.IH show ?thesis
      by (simp add: expand_loop.simps[of "Suc n"])
  qed
qed

text \<open>
  C1. Expansion does not terminate for every environment and text: with
  \<open>#define fo() $&$&\<close>, the expansion of \<open>fo()\<close> runs out of any fuel, since every iteration of
  the loop finds the same \<open>current\<close> again.
\<close>

theorem expandMacros_diverges:
  "expandMacros n ''fo()'' [(''fo'', \<lparr>macro_args = Some [], macro_body = Some ''$&$&''\<rparr>)]
   = OutOfFuel"
proof -
  have "list_all modelled_macro [(''fo'', \<lparr>macro_args = Some [], macro_body = Some ''$&$&''\<rparr>)]"
    by code_simp
  then show ?thesis
    by (cases n) (simp_all add: expandMacros.simps expandFunctionMacro_def fo_loop)
qed

text \<open>
  C9. An expansion is not inserted character for character: \<open>replace\<close> reads \<open>$&\<close> in it as
  the matched text and \<open>$'\<close> as the text after the match, for an object-like macro and for
  a function-like call; \<open>$1\<close> stands for itself, the patterns having no group.
\<close>

theorem replacement_patterns_interpreted:
  "expandMacros (Suc (Suc n)) ''X'' [(''X'', \<lparr>macro_args = None, macro_body = Some ''$&''\<rparr>)]
     = Return ''X''
   \<and> expandMacros (Suc (Suc n)) ''a X b''
       [(''X'', \<lparr>macro_args = None, macro_body = Some [CHR ''$'', CHR 0x27]\<rparr>)]
     = Return ''a  b b''
   \<and> expandMacros (Suc (Suc n)) ''f()'' [(''f'', \<lparr>macro_args = Some [], macro_body = Some ''$&''\<rparr>)]
     = Return ''f()''
   \<and> expandMacros (Suc (Suc n)) ''X'' [(''X'', \<lparr>macro_args = None, macro_body = Some ''$1''\<rparr>)]
     = Return ''$1''"
proof -
  have 1: "expandMacros 2 ''X'' [(''X'', \<lparr>macro_args = None, macro_body = Some ''$&''\<rparr>)]
     = Return ''X''" by code_simp
  have 2: "expandMacros 2 ''a X b''
       [(''X'', \<lparr>macro_args = None, macro_body = Some [CHR ''$'', CHR 0x27]\<rparr>)]
     = Return ''a  b b''" by code_simp
  have 3: "expandMacros 2 ''f()'' [(''f'', \<lparr>macro_args = Some [], macro_body = Some ''$&''\<rparr>)]
     = Return ''f()''" by code_simp
  have 4: "expandMacros 2 ''X'' [(''X'', \<lparr>macro_args = None, macro_body = Some ''$1''\<rparr>)]
     = Return ''$1''" by code_simp
  have le: "2 \<le> Suc (Suc n)" by simp
  from expandMacros_mono[OF le, of "''X''"] expandMacros_mono[OF le, of "''a X b''"]
    expandMacros_mono[OF le, of "''f()''"] 1 2 3 4
  show ?thesis by simp
qed



section \<open>Text without macros\<close>

lemma expandObjectMacro_absent:
  "CHR ''.'' \<notin> set macroName \<Longrightarrow> \<not> occurs_as_word macroName text \<Longrightarrow>
   expandObjectMacro expand macros macroName macro text = Return text"
  by (simp add: expandObjectMacro_def occurs_as_word_iff)

lemma expandFunctionMacro_absent:
  "\<not> invoked macroName text \<Longrightarrow>
   expandFunctionMacro expand n macros macroName macro text = Return text"
  by (rule expandFunctionMacro_no_match) (cases "regex_exec (start_matcher macroName) [] text"; simp add: invoked_iff)

lemma reduce_unchanged:
  "(\<And>x. x \<in> set xs \<Longrightarrow> f acc x = Return acc) \<Longrightarrow> reduce f acc xs = Return acc"
  by (induction xs) auto

lemma expandMacros_unchanged:
  assumes "list_all modelled_macro macros"
    and "\<And>name macro. (name, macro) \<in> set macros \<Longrightarrow>
     (if macro_args macro = None then CHR ''.'' \<notin> set name \<and> \<not> occurs_as_word name text
      else \<not> invoked name text)"
  shows "expandMacros (Suc n) text macros = Return text"
proof -
  have "reduce (\<lambda>result (macroName, macro).
                    if macro_args macro \<noteq> None
                    then expandFunctionMacro (expandMacros n) n macros macroName macro result
                    else expandObjectMacro (expandMacros n) macros macroName macro result)
            text macros = Return text"
  proof (rule reduce_unchanged)
    fix x assume x: "x \<in> set macros"
    obtain name macro where nm: "x = (name, macro)" by (cases x)
    from assms(2)[of name macro] x nm
    show "(case x of (macroName, macro) \<Rightarrow>
            if macro_args macro \<noteq> None
            then expandFunctionMacro (expandMacros n) n macros macroName macro text
            else expandObjectMacro (expandMacros n) macros macroName macro text) = Return text"
      by (auto simp: expandObjectMacro_absent expandFunctionMacro_absent)
  qed
  with assms(1) show ?thesis by (simp add: expandMacros.simps)
qed

lemma assign_set:
  "(k, v) \<in> set (assign macros name macro) \<Longrightarrow>
   (k, v) \<in> set macros \<or> (k = name \<and> v = macro)"
  by (induction macros name macro rule: assign.induct) (auto split: if_splits)

lemma foldl_assign_object_like:
  "(k, v) \<in> set (foldl (\<lambda>acc (name, body). assign acc name \<lparr>macro_args = None, macro_body = Some body\<rparr>)
       acc defines) \<Longrightarrow>
   (k, v) \<in> set acc \<or> (k \<in> fst ` set defines \<and> macro_args v = None)"
proof (induction "defines" arbitrary: acc)
  case Nil
  then show ?case by simp
next
  case (Cons d ds)
  obtain name body where d: "d = (name, body)" by (cases d)
  from Cons.IH[of "assign acc name \<lparr>macro_args = None, macro_body = Some body\<rparr>"] Cons.prems d
  show ?case by (auto dest!: assign_set)
qed

lemma initial_macros_object_like:
  "(k, v) \<in> set (initial_macros defines) \<Longrightarrow> k \<in> fst ` set defines \<and> macro_args v = None"
  unfolding initial_macros_def by (drule foldl_assign_object_like) simp

lemma is_identifier_pattern: "is_identifier name \<Longrightarrow> is_name_pattern name"
  by (auto simp: is_identifier_def is_name_pattern_def list_all_iff)

lemma initial_macros_modelled:
  assumes "\<And>name. name \<in> fst ` set defines \<Longrightarrow> is_identifier name"
  shows "list_all modelled_macro (initial_macros defines)"
  unfolding list_all_iff
proof
  fix x assume x: "x \<in> set (initial_macros defines)"
  obtain k v where kv: "x = (k, v)" by (cases x)
  from initial_macros_object_like[of k v "defines"] x kv assms[of k]
  show "modelled_macro x"
    by (simp add: modelled_macro_def is_identifier_pattern)
qed

text \<open>
  C8. When the names of the seeded defines are identifiers and none of them occurs in a
  text between word boundaries, \<open>expandMacros\<close> under the seeded macros returns the text
  unchanged.
\<close>

theorem macro_free_text_unchanged:
  "(\<forall>name \<in> fst ` set defines. is_identifier name \<and> \<not> occurs_as_word name text) \<longrightarrow>
     expandMacros (Suc n) text (initial_macros defines) = Return text"
proof
  assume a: "\<forall>name \<in> fst ` set defines. is_identifier name \<and> \<not> occurs_as_word name text"
  show "expandMacros (Suc n) text (initial_macros defines) = Return text"
  proof (rule expandMacros_unchanged)
    from a show "list_all modelled_macro (initial_macros defines)"
      by (intro initial_macros_modelled) blast
  next
    fix name macro assume "(name, macro) \<in> set (initial_macros defines)"
    from initial_macros_object_like[OF this] a
    show "if macro_args macro = None then CHR ''.'' \<notin> set name \<and> \<not> occurs_as_word name text
          else \<not> invoked name text"
      by (auto dest: is_identifier_literal)
  qed
qed

text \<open>
  A text that holds the seeded name inside longer identifiers only.
\<close>

theorem macro_free_text_unchanged_witness:
  "expandMacros (Suc 0) ''precision mediump float; // GL_ES2 xGL_ES'' (initial_macros [(''GL_ES'', ''1'')])
     = Return ''precision mediump float; // GL_ES2 xGL_ES''"
proof -
  have i: "is_identifier ''GL_ES''" by code_simp
  have "\<not> regex_test (word_matcher ''GL_ES'') ''precision mediump float; // GL_ES2 xGL_ES''"
    by code_simp
  with i have "\<forall>name \<in> fst ` set [(''GL_ES'', ''1'')].
      is_identifier name \<and> \<not> occurs_as_word name ''precision mediump float; // GL_ES2 xGL_ES''"
    by (simp add: occurs_as_word_iff is_identifier_literal)
  with macro_free_text_unchanged[of "[(''GL_ES'', ''1'')]"
      "''precision mediump float; // GL_ES2 xGL_ES''" 0]
  show ?thesis by blast
qed

text \<open>
  Without the condition on the names the property fails: the seeded name \<open>a.c\<close> does not
  occur in the text \<open>abc\<close>, and yet the text is replaced, since the name is read as a
  regular expression in which the full stop stands for any character.
\<close>

theorem name_read_as_pattern:
  "\<forall>n. \<not> occurs_as_word ''a.c'' ''abc''
     \<and> expandMacros (Suc (Suc n)) ''abc'' (initial_macros [(''a.c'', ''x'')]) = Return ''x''"
proof
  fix n
  have 1: "\<not> occurs_as_word ''a.c'' ''abc''"
  proof
    assume "occurs_as_word ''a.c'' ''abc''"
    then obtain pre post where "''abc'' = pre @ ''a.c'' @ post"
      by (auto simp: occurs_as_word_def)
    then have "set ''abc'' = set (pre @ ''a.c'' @ post)" by simp
    then show False by auto
  qed
  have 2: "expandMacros 2 ''abc'' (initial_macros [(''a.c'', ''x'')]) = Return ''x''"
    by code_simp
  have le: "2 \<le> Suc (Suc n)" by simp
  from expandMacros_mono[OF le, of "''abc''" "initial_macros [(''a.c'', ''x'')]"] 2
  have "expandMacros (Suc (Suc n)) ''abc'' (initial_macros [(''a.c'', ''x'')]) = Return ''x''"
    by simp
  with 1 show "\<not> occurs_as_word ''a.c'' ''abc''
     \<and> expandMacros (Suc (Suc n)) ''abc'' (initial_macros [(''a.c'', ''x'')]) = Return ''x''"
    by blast
qed

section \<open>A macro without parameters\<close>





section \<open>Token pasting\<close>











section \<open>The walker: unfolding one step\<close>
lemma and_then_Return_simp [simp]: "and_then (Return v) f = f v"
  by (simp add: and_then_def)








lemma entered_Nil [simp]: "entered rt opts fuel []"
  by (simp add: entered_def)

lemma entered_Cons [simp]:
  "entered rt opts fuel ((n, m) # tr) =
     ((\<exists>r. enter rt opts fuel m n = Return r) \<and> entered rt opts fuel tr)"
  by (simp add: entered_def)

lemma entered_append [simp]:
  "entered rt opts fuel (tr @ tr') = (entered rt opts fuel tr \<and> entered rt opts fuel tr')"
  by (simp add: entered_def)


section \<open>The macros along the walk\<close>


lemma handlers_effect_Nil [simp]: "handlers_effect macros [] = macros"
  by (simp add: handlers_effect_def)

lemma handlers_effect_Cons [simp]:
  "handlers_effect macros (n # ns) = handlers_effect (handler_effect macros n) ns"
  by (simp add: handlers_effect_def)

lemma handlers_effect_append [simp]:
  "handlers_effect macros (ns @ ns') = handlers_effect (handlers_effect macros ns) ns'"
  by (simp add: handlers_effect_def)


























section \<open>The selection of a branch\<close>

lemma reduce_append:
  "reduce f acc (xs @ ys) = and_then (reduce f acc xs) (\<lambda>acc'. reduce f acc' ys)"
  by (induction xs arbitrary: acc) (simp_all add: and_then_def split: result.splits)

lemma elseBranchHit_done:
  "reduce (\<lambda>(res, path) (expression, body).
             if res then Return (res, path)
             else and_then (ev expression) (\<lambda>v.
                    if tr v then Return (True, Replaced body) else Return (False, path)))
      (True, p) elseIfParts = Return (True, p)"
  by (induction elseIfParts) auto

lemma elseBranchHit_none:
  "(\<forall>(e, b) \<in> set elseIfParts. \<exists>w. ev e = Return w \<and> \<not> tr w) \<Longrightarrow>
   reduce (\<lambda>(res, path) (expression, body).
             if res then Return (res, path)
             else and_then (ev expression) (\<lambda>v.
                    if tr v then Return (True, Replaced body) else Return (False, path)))
      (False, p) elseIfParts = Return (False, p)"
  by (induction elseIfParts) auto

lemma elseBranchHit_first:
  assumes "\<forall>(e', b') \<in> set pre. \<exists>w. ev e' = Return w \<and> \<not> tr w"
    and "ev e = Return w" "tr w"
  shows "reduce (\<lambda>(res, path) (expression, body).
             if res then Return (res, path)
             else and_then (ev expression) (\<lambda>v.
                    if tr v then Return (True, Replaced body) else Return (False, path)))
      (False, p) (pre @ (e, b) # post) = Return (True, Replaced b)"
  unfolding reduce_append elseBranchHit_none[OF assms(1)]
  using assms(2,3) by (simp add: elseBranchHit_done)


lemma conditional_enter_unfold:
  assumes "expandInExpressions fuel macros ifPart elseIfParts = Return (ifPart', elseIfParts')"
    and "evaluateIfPart rt macros ifPart' = Return v"
  shows "conditional_enter rt fuel macros ifPart elseIfParts elsePart =
     (if isTruthy rt v then Return (Replaced (if_body ifPart'))
       else
         and_then (reduce (\<lambda>(res, path) (expression, body).
                     if res then Return (res, path)
                     else and_then (evaluteExpression rt expression macros) (\<lambda>v.
                            if isTruthy rt v then Return (True, Replaced body)
                            else Return (False, path)))
                   (False, Visited) elseIfParts') (\<lambda>(elseBranchHit, path).
           if \<not> elseBranchHit
           then (case elsePart of Some body \<Rightarrow> Return (Replaced body) | None \<Rightarrow> Return Removed)
           else Return path))"
  unfolding conditional_enter_def assms(1) and_then_Return_simp prod.case assms(2) ..

text \<open>
  A conditional that is not preserved is replaced as follows. The expressions of the
  \<open>#if\<close> and of every \<open>#elif\<close> are expanded first, which leaves the bodies as they are. When
  the \<open>#if\<close> part is true, the conditional is replaced by the body of the \<open>#if\<close> part.
  Otherwise the first \<open>#elif\<close> whose expression is true, the ones before it being false,
  gives its body, whatever the later ones are; and when every \<open>#elif\<close> is false the
  conditional is replaced by the body of the \<open>#else\<close> part, and removed when there is none.
  An \<open>#if\<close> is decided by the value of its expression, an \<open>#ifdef\<close> by \<open>name in macros\<close> and
  an \<open>#ifndef\<close> by the negation of it.
\<close>

theorem conditional_selection:
  "(expandInExpressions fuel macros ifPart elseIfParts = Return (ifPart', elseIfParts') \<longrightarrow>
    evaluateIfPart rt macros ifPart' = Return v \<longrightarrow>
      if_body ifPart' = if_body ifPart \<and> map snd elseIfParts' = map snd elseIfParts
      \<and> (isTruthy rt v \<longrightarrow>
           conditional_enter rt fuel macros ifPart elseIfParts elsePart
             = Return (Replaced (if_body ifPart)))
      \<and> (\<not> isTruthy rt v \<longrightarrow>
           (elseIfParts' = pre @ (e, b) # post \<longrightarrow>
            (\<forall>(e', b') \<in> set pre. \<exists>w'. evaluteExpression rt e' macros = Return w' \<and> \<not> isTruthy rt w') \<longrightarrow>
            evaluteExpression rt e macros = Return w \<longrightarrow> isTruthy rt w \<longrightarrow>
              conditional_enter rt fuel macros ifPart elseIfParts elsePart = Return (Replaced b))
           \<and> ((\<forall>(e', b') \<in> set elseIfParts'.
                  \<exists>w'. evaluteExpression rt e' macros = Return w' \<and> \<not> isTruthy rt w') \<longrightarrow>
                conditional_enter rt fuel macros ifPart elseIfParts elsePart
                  = (case elsePart of Some body \<Rightarrow> Return (Replaced body) | None \<Rightarrow> Return Removed))))
   \<and> evaluateIfPart rt macros (If expression body) = evaluteExpression rt expression macros
   \<and> evaluateIfPart rt macros (IfDef name body) = Return (JBoolean (js_in name macros))
   \<and> evaluateIfPart rt macros (IfNDef name body) = Return (JBoolean (\<not> js_in name macros))
   \<and> isTruthy rt (JBoolean t) = t
   \<and> (\<not> opt_preserve opts (Conditional ifPart elseIfParts elsePart) \<longrightarrow>
        conditional_enter rt fuel macros ifPart elseIfParts elsePart = Return p \<longrightarrow>
          enter rt opts fuel macros (Conditional ifPart elseIfParts elsePart)
            = Return (macros, Conditional ifPart elseIfParts elsePart, p))"
proof -
  have main: "if_body ifPart' = if_body ifPart \<and> map snd elseIfParts' = map snd elseIfParts
      \<and> (isTruthy rt v \<longrightarrow>
           conditional_enter rt fuel macros ifPart elseIfParts elsePart
             = Return (Replaced (if_body ifPart)))
      \<and> (\<not> isTruthy rt v \<longrightarrow>
           (elseIfParts' = pre @ (e, b) # post \<longrightarrow>
            (\<forall>(e', b') \<in> set pre. \<exists>w'. evaluteExpression rt e' macros = Return w' \<and> \<not> isTruthy rt w') \<longrightarrow>
            evaluteExpression rt e macros = Return w \<longrightarrow> isTruthy rt w \<longrightarrow>
              conditional_enter rt fuel macros ifPart elseIfParts elsePart = Return (Replaced b))
           \<and> ((\<forall>(e', b') \<in> set elseIfParts'.
                  \<exists>w'. evaluteExpression rt e' macros = Return w' \<and> \<not> isTruthy rt w') \<longrightarrow>
                conditional_enter rt fuel macros ifPart elseIfParts elsePart
                  = (case elsePart of Some body \<Rightarrow> Return (Replaced body) | None \<Rightarrow> Return Removed)))"
    if x: "expandInExpressions fuel macros ifPart elseIfParts = Return (ifPart', elseIfParts')"
      and y: "evaluateIfPart rt macros ifPart' = Return v"
  proof -
    note b = expandInExpressions_bodies[OF x]
    note u = conditional_enter_unfold[OF x y, of elsePart]
    have 1: "conditional_enter rt fuel macros ifPart elseIfParts elsePart
             = Return (Replaced (if_body ifPart))" if "isTruthy rt v"
      using u that b by simp
    have 2: "conditional_enter rt fuel macros ifPart elseIfParts elsePart = Return (Replaced b)"
      if "\<not> isTruthy rt v" "elseIfParts' = pre @ (e, b) # post"
        "\<forall>(e', b') \<in> set pre. \<exists>w'. evaluteExpression rt e' macros = Return w' \<and> \<not> isTruthy rt w'"
        "evaluteExpression rt e macros = Return w" "isTruthy rt w"
      unfolding u that(2)
        elseBranchHit_first[of pre "\<lambda>e. evaluteExpression rt e macros" "isTruthy rt", OF that(3,4,5)]
      using that(1) by simp
    have 3: "conditional_enter rt fuel macros ifPart elseIfParts elsePart
                  = (case elsePart of Some body \<Rightarrow> Return (Replaced body) | None \<Rightarrow> Return Removed)"
      if "\<not> isTruthy rt v"
        "\<forall>(e', b') \<in> set elseIfParts'.
                  \<exists>w'. evaluteExpression rt e' macros = Return w' \<and> \<not> isTruthy rt w'"
      unfolding u
        elseBranchHit_none[of elseIfParts' "\<lambda>e. evaluteExpression rt e macros" "isTruthy rt", OF that(2)]
      using that(1) by simp
    from b 1 2 3 show ?thesis by blast
  qed
  have ev: "evaluateIfPart rt macros (If expression body) = evaluteExpression rt expression macros"
    "evaluateIfPart rt macros (IfDef name body) = Return (JBoolean (js_in name macros))"
    "evaluateIfPart rt macros (IfNDef name body) = Return (JBoolean (\<not> js_in name macros))"
    "isTruthy rt (JBoolean t) = t"
    by (simp_all add: evaluateIfPart_def isTruthy_def)
  have en: "enter rt opts fuel macros (Conditional ifPart elseIfParts elsePart)
            = Return (macros, Conditional ifPart elseIfParts elsePart, p)"
    if "\<not> opt_preserve opts (Conditional ifPart elseIfParts elsePart)"
      "conditional_enter rt fuel macros ifPart elseIfParts elsePart = Return p"
    using that by (simp add: enter_def)
  from main ev en show ?thesis by blast
qed


text \<open>
  The conditional \<open>#if defined(B)\<close> ... \<open>#elif defined(A)\<close> ... \<open>#else\<close> ... with \<open>A\<close> defined,
  with nothing defined, with nothing defined and no \<open>#else\<close>, and \<open>#ifdef A\<close> with \<open>A\<close>
  defined.
\<close>

lemma conditional_examples:
  "expandInExpressions 1 [(''A'', \<lparr>macro_args = None, macro_body = None\<rparr>)]
      (If (UnaryDefined ''B'') [Text ''if'']) [(UnaryDefined ''A'', [Text ''elif''])]
    = Return (If (UnaryDefined ''B'') [Text ''if''], [(UnaryDefined ''A'', [Text ''elif''])])"
  "expandInExpressions 1 []
      (If (UnaryDefined ''B'') [Text ''if'']) [(UnaryDefined ''A'', [Text ''elif''])]
    = Return (If (UnaryDefined ''B'') [Text ''if''], [(UnaryDefined ''A'', [Text ''elif''])])"
  "expandInExpressions 1 [(''A'', \<lparr>macro_args = None, macro_body = None\<rparr>)]
      (IfDef ''A'' [Text ''if'']) [(UnaryDefined ''A'', [Text ''elif''])]
    = Return (IfDef ''A'' [Text ''if''], [(UnaryDefined ''A'', [Text ''elif''])])"
  "js_in ''A'' [(''A'', \<lparr>macro_args = None, macro_body = None\<rparr>)]"
  "\<not> js_in ''B'' [(''A'', \<lparr>macro_args = None, macro_body = None\<rparr>)]"
  "\<not> js_in ''A'' []"
  "\<not> js_in ''B'' []"
  by (simp_all add: expandInExpressions_def js_in_def object_prototype_names_def)

theorem conditional_selection_witness:
  "\<forall>rt :: int js_runtime.
     conditional_enter rt 1 [(''A'', \<lparr>macro_args = None, macro_body = None\<rparr>)]
        (If (UnaryDefined ''B'') [Text ''if'']) [(UnaryDefined ''A'', [Text ''elif''])]
        (Some [Text ''else''])
       = Return (Replaced [Text ''elif''])
     \<and> conditional_enter rt 1 []
        (If (UnaryDefined ''B'') [Text ''if'']) [(UnaryDefined ''A'', [Text ''elif''])]
        (Some [Text ''else''])
       = Return (Replaced [Text ''else''])
     \<and> conditional_enter rt 1 []
        (If (UnaryDefined ''B'') [Text ''if'']) [(UnaryDefined ''A'', [Text ''elif''])] None
       = Return Removed
     \<and> conditional_enter rt 1 [(''A'', \<lparr>macro_args = None, macro_body = None\<rparr>)]
        (IfDef ''A'' [Text ''if'']) [(UnaryDefined ''A'', [Text ''elif''])] (Some [Text ''else''])
       = Return (Replaced [Text ''if''])"
proof
  fix rt :: "int js_runtime"
  let ?A = "[(''A'', \<lparr>macro_args = None, macro_body = None\<rparr>)]"
  let ?if = "If (UnaryDefined ''B'') [Text ''if'']"
  let ?elifs = "[(UnaryDefined ''A'', [Text ''elif''])]"
  note ex = conditional_examples
  have t: "\<not> isTruthy rt (JBoolean False)" "isTruthy rt (JBoolean True)"
    by (simp_all add: isTruthy_def)
  have 1: "conditional_enter rt 1 ?A ?if ?elifs (Some [Text ''else''])
       = Return (Replaced [Text ''elif''])"
  proof -
    have v: "evaluateIfPart rt ?A ?if = Return (JBoolean False)"
      by (simp add: evaluateIfPart_def ex)
    have w: "evaluteExpression rt (UnaryDefined ''A'') ?A = Return (JBoolean True)"
      by (simp add: ex)
    have p: "?elifs = [] @ (UnaryDefined ''A'', [Text ''elif'']) # []" by simp
    have q: "\<forall>(e', b') \<in> set []. \<exists>w'. evaluteExpression rt e' ?A = Return w' \<and> \<not> isTruthy rt w'"
      by simp
    from conditional_selection[of 1 ?A ?if ?elifs ?if ?elifs rt "JBoolean False"
        "Some [Text ''else'']" "[]" "UnaryDefined ''A''" "[Text ''elif'']" "[]" "JBoolean True"]
      ex(1) v w p q t
    show ?thesis by blast
  qed
  have 2: "conditional_enter rt 1 [] ?if ?elifs (Some [Text ''else''])
       = Return (Replaced [Text ''else''])"
  proof -
    have v: "evaluateIfPart rt [] ?if = Return (JBoolean False)"
      by (simp add: evaluateIfPart_def ex)
    have q: "\<forall>(e', b') \<in> set ?elifs. \<exists>w'. evaluteExpression rt e' [] = Return w' \<and> \<not> isTruthy rt w'"
      by (simp add: ex isTruthy_def)
    from conditional_selection[of 1 "[]" ?if ?elifs ?if ?elifs rt "JBoolean False"
        "Some [Text ''else'']"]
      ex(2) v q t
    have "conditional_enter rt 1 [] ?if ?elifs (Some [Text ''else''])
       = (case Some [Text ''else''] of Some body \<Rightarrow> Return (Replaced body) | None \<Rightarrow> Return Removed)"
      by blast
    then show ?thesis by simp
  qed
  have 3: "conditional_enter rt 1 [] ?if ?elifs None = Return Removed"
  proof -
    have v: "evaluateIfPart rt [] ?if = Return (JBoolean False)"
      by (simp add: evaluateIfPart_def ex)
    have q: "\<forall>(e', b') \<in> set ?elifs. \<exists>w'. evaluteExpression rt e' [] = Return w' \<and> \<not> isTruthy rt w'"
      by (simp add: ex isTruthy_def)
    from conditional_selection[of 1 "[]" ?if ?elifs ?if ?elifs rt "JBoolean False" None]
      ex(2) v q t
    have "conditional_enter rt 1 [] ?if ?elifs None
       = (case None of Some body \<Rightarrow> Return (Replaced body) | None \<Rightarrow> Return Removed)"
      by blast
    then show ?thesis by simp
  qed
  have 4: "conditional_enter rt 1 ?A (IfDef ''A'' [Text ''if'']) ?elifs (Some [Text ''else''])
       = Return (Replaced [Text ''if''])"
  proof -
    have v: "evaluateIfPart rt ?A (IfDef ''A'' [Text ''if'']) = Return (JBoolean True)"
      by (simp add: evaluateIfPart_def ex)
    from conditional_selection[of 1 ?A "IfDef ''A'' [Text ''if'']" ?elifs
        "IfDef ''A'' [Text ''if'']" ?elifs rt "JBoolean True" "Some [Text ''else'']"]
      ex(3) v t
    have "conditional_enter rt 1 ?A (IfDef ''A'' [Text ''if'']) ?elifs (Some [Text ''else''])
       = Return (Replaced (if_body (IfDef ''A'' [Text ''if''])))"
      by blast
    then show ?thesis by simp
  qed
  from 1 2 3 4
  show "conditional_enter rt 1 ?A ?if ?elifs (Some [Text ''else''])
       = Return (Replaced [Text ''elif''])
     \<and> conditional_enter rt 1 [] ?if ?elifs (Some [Text ''else''])
       = Return (Replaced [Text ''else''])
     \<and> conditional_enter rt 1 [] ?if ?elifs None = Return Removed
     \<and> conditional_enter rt 1 ?A (IfDef ''A'' [Text ''if'']) ?elifs (Some [Text ''else''])
       = Return (Replaced [Text ''if''])"
    by blast
qed

text \<open>
  C3. The selection above decides an \<open>#ifdef\<close> by \<open>name in macros\<close>, and this holds for the
  names that the macros object inherits from \<open>Object.prototype\<close> as well as for the names of
  the macros. So the \<open>#if\<close> part is not selected by whether its name is defined: with no
  macro defined, \<open>#ifdef constructor\<close> is replaced by the body of the \<open>#ifdef\<close> and not by
  the one of \<open>#else\<close>, \<open>#ifndef toString\<close> is replaced by the body of \<open>#else\<close>, or removed
  when there is none, and preprocessing \<open>#ifdef constructor\<close>, \<open>a\<close>, \<open>#else\<close>, \<open>b\<close>,
  \<open>#endif\<close> gives \<open>a\<close>.
\<close>

theorem ifdef_inherited_name:
  "conditional_enter rt fuel [] (IfDef ''constructor'' body) [] (Some body') = Return (Replaced body)
   \<and> conditional_enter rt fuel [] (IfNDef ''toString'' body) [] (Some body') = Return (Replaced body')
   \<and> conditional_enter rt fuel [] (IfNDef ''toString'' body) [] None = Return Removed
   \<and> preprocessAst rt (Suc n)
        [Conditional (IfDef ''constructor'' [Text ''a'']) [] (Some [Text ''b''])]
        \<lparr>opt_defines = [], opt_preserve = (\<lambda>n. False), opt_stopOnError = False\<rparr>
      = Return [Text ''a'']"
proof -
  have j: "js_in ''toString'' []" "js_in ''constructor'' []"
    by (simp_all add: js_in_def object_prototype_names_def)
  have e: "expandMacros (Suc n) ''a'' [] = Return ''a''"
    by (simp add: expandMacros.simps)
  have c: "conditional_enter rt fuel [] (IfDef ''constructor'' b1) [] (Some b2) = Return (Replaced b1)"
    for b1 b2 and fuel :: nat
    by (simp add: conditional_enter_def expandInExpressions_def evaluateIfPart_def isTruthy_def j)
  have 4: "preprocessAst rt (Suc n)
        [Conditional (IfDef ''constructor'' [Text ''a'']) [] (Some [Text ''b''])]
        \<lparr>opt_defines = [], opt_preserve = (\<lambda>n. False), opt_stopOnError = False\<rparr>
      = Return [Text ''a'']"
    by (simp add: preprocessAst_def initial_macros_def enter_def c e)
  from c[of fuel body body'] 4 show ?thesis
    by (simp add: conditional_enter_def expandInExpressions_def evaluateIfPart_def isTruthy_def j)
qed

section \<open>The expressions of conditionals\<close>

text \<open>
  The expansion before the evaluation replaces the name of every identifier outside
  \<open>defined\<close> by its expansion and leaves the operands of \<open>defined\<close> as they are; for a name
  that no object inherits, \<open>defined\<close> tells whether the name is that of a macro.
\<close>

lemma expand_in_expression_identifiers:
  "(\<And>name. name \<in> set (identifiers e) \<Longrightarrow> expandMacros fuel name macros = Return (f name)) \<Longrightarrow>
   expand_in_expression fuel macros e = Return (map_identifiers f e)"
  by (induction e) simp_all

lemma defined_by_name:
  "name \<notin> set object_prototype_names \<Longrightarrow>
   evaluteExpression rt (UnaryDefined name) macros = Return (JBoolean (name \<in> fst ` set macros))"
  by (simp add: js_in_def)

lemma defined_not_expanded:
  "and_then (expand_in_expression fuel macros (UnaryDefined name))
     (\<lambda>e. evaluteExpression rt e macros) = Return (JBoolean (js_in name macros))"
  by simp

text \<open>
  C6. \<open>defined(X)\<close> is evaluated on the name \<open>X\<close>, not on its expansion, and gives
  \<open>X in macros\<close>. For a name that every object inherits from \<open>Object.prototype\<close> this is true
  although no macro has the name: with no macro at all, \<open>defined(toString)\<close> is true,
  \<open>#ifdef constructor\<close> is true, and \<open>#if defined(toString)\<close> selects its body and not that
  of \<open>#else\<close>.
\<close>

theorem defined_inherited_name:
  "evaluteExpression rt (UnaryDefined ''toString'') [] = Return (JBoolean True)
   \<and> evaluateIfPart rt [] (IfDef ''constructor'' body) = Return (JBoolean True)
   \<and> conditional_enter rt fuel [] (If (UnaryDefined ''toString'') body) [] (Some body')
       = Return (Replaced body)"
proof -
  have j: "js_in ''toString'' []" "js_in ''constructor'' []"
    by (simp_all add: js_in_def object_prototype_names_def)
  show ?thesis
    by (simp add: conditional_enter_def expandInExpressions_def evaluateIfPart_def isTruthy_def j)
qed

end
